theory Spec2Isabelle
  imports Main
begin

section \<open>JSON values and JavaScript objects\<close>

text \<open>
  A JavaScript object is represented by the list of its own enumerable properties, in
  the order \<^verbatim>\<open>Object.entries\<close> lists them. An object holds each name at most once
  (\<open>distinct (map fst obj)\<close>). An object parsed from JSON may hold an own property named
  \<^verbatim>\<open>__proto__\<close>. Numbers are opaque leaves here: the code never inspects them.
\<close>

datatype json =
    JUndefined
  | JNull
  | JBool bool
  | JNum int
  | JStr string
  | JArr "json list"
  | JObj "(string \<times> json) list"

type_synonym 'v obj = "(string \<times> 'v) list"

text \<open>
  Defining an own property: overwrite it where it exists, add it at the end otherwise.
  This is what \<^verbatim>\<open>out[key] = value\<close> does for every key but \<^verbatim>\<open>__proto__\<close>.
\<close>

fun setProp :: "'v obj \<Rightarrow> string \<Rightarrow> 'v \<Rightarrow> 'v obj" where
  "setProp [] key v = [(key, v)]"
| "setProp ((k, w) # rest) key v =
     (if k = key then (k, v) # rest else (k, w) # setProp rest key v)"

text \<open>
  \<^verbatim>\<open>out[key] = value\<close> on an object created by the literal \<^verbatim>\<open>{}\<close>. The key \<^verbatim>\<open>__proto__\<close>
  reaches the accessor inherited from \<^verbatim>\<open>Object.prototype\<close>: the assignment sets the
  prototype of \<^verbatim>\<open>out\<close> (or does nothing, for a value that is no object) and creates no
  own property.
\<close>

fun assignProp :: "'v obj \<Rightarrow> string \<Rightarrow> 'v \<Rightarrow> 'v obj" where
  "assignProp ob key v = (if key = ''__proto__'' then ob else setProp ob key v)"

text \<open>\<^verbatim>\<open>obj[key]\<close> on own properties.\<close>

definition getProp :: "'v obj \<Rightarrow> string \<Rightarrow> 'v option" where
  "getProp ob key = map_of ob key"

section \<open>The schema sanitizer (sanitize-tools.ts)\<close>

definition STRIP_KEYS :: "string list" where
  "STRIP_KEYS =
     [''minLength'', ''maxLength'', ''minItems'', ''maxItems'',
      ''exclusiveMinimum'', ''exclusiveMaximum'', ''pattern'', ''format'',
      ''default'', ''$schema'']"

text \<open>
  \<open>sanitizeSchema\<close> is the source function; \<open>sanitizeEntries\<close> is its \<^verbatim>\<open>for\<close> loop over
  \<^verbatim>\<open>Object.entries(schema)\<close> with the accumulator \<^verbatim>\<open>out\<close>; \<open>sanitizeValue\<close> is the
  three-way branch on a property value; \<open>sanitizeItem\<close> is the callback of
  \<^verbatim>\<open>value.map\<close>, which recurses into an element only when it is a plain object.
\<close>

fun sanitizeSchema :: "json obj \<Rightarrow> json obj"
  and sanitizeEntries :: "json obj \<Rightarrow> json obj \<Rightarrow> json obj"
  and sanitizeValue :: "json \<Rightarrow> json"
  and sanitizeItems :: "json list \<Rightarrow> json list"
  and sanitizeItem :: "json \<Rightarrow> json"
where
  "sanitizeSchema schema = sanitizeEntries schema []"
| "sanitizeEntries [] out = out"
| "sanitizeEntries ((key, v) # rest) out =
     (if key \<in> set STRIP_KEYS then sanitizeEntries rest out
      else sanitizeEntries rest (assignProp out key (sanitizeValue v)))"
| "sanitizeValue (JObj m) = JObj (sanitizeSchema m)"
| "sanitizeValue (JArr xs) = JArr (sanitizeItems xs)"
| "sanitizeValue v = v"
| "sanitizeItems [] = []"
| "sanitizeItems (x # xs) = sanitizeItem x # sanitizeItems xs"
| "sanitizeItem (JObj m) = JObj (sanitizeSchema m)"
| "sanitizeItem item = item"


subsection \<open>Predicates on schema trees\<close>

text \<open>\<open>hasKey k j\<close>: some mapping node of \<open>j\<close>, at any depth, holds the key \<open>k\<close>.\<close>

fun hasKey :: "string \<Rightarrow> json \<Rightarrow> bool"
  and hasKeyEntries :: "string \<Rightarrow> json obj \<Rightarrow> bool"
  and hasKeyItems :: "string \<Rightarrow> json list \<Rightarrow> bool"
where
  "hasKey k (JObj m) = hasKeyEntries k m"
| "hasKey k (JArr xs) = hasKeyItems k xs"
| "hasKey k v = False"
| "hasKeyEntries k [] = False"
| "hasKeyEntries k ((k', v) # rest) = (k' = k \<or> hasKey k v \<or> hasKeyEntries k rest)"
| "hasKeyItems k [] = False"
| "hasKeyItems k (x # xs) = (hasKey k x \<or> hasKeyItems k xs)"

text \<open>\<open>hasStripKey j\<close>: some mapping node of \<open>j\<close>, at any depth, holds a denylisted key.\<close>

fun hasStripKey :: "json \<Rightarrow> bool"
  and hasStripKeyEntries :: "json obj \<Rightarrow> bool"
  and hasStripKeyItems :: "json list \<Rightarrow> bool"
where
  "hasStripKey (JObj m) = hasStripKeyEntries m"
| "hasStripKey (JArr xs) = hasStripKeyItems xs"
| "hasStripKey v = False"
| "hasStripKeyEntries [] = False"
| "hasStripKeyEntries ((k, v) # rest) =
     (k \<in> set STRIP_KEYS \<or> hasStripKey v \<or> hasStripKeyEntries rest)"
| "hasStripKeyItems [] = False"
| "hasStripKeyItems (x # xs) = (hasStripKey x \<or> hasStripKeyItems xs)"

text \<open>\<open>wfJson j\<close>: every mapping node of \<open>j\<close>, at any depth, holds each key once.\<close>

fun wfJson :: "json \<Rightarrow> bool"
  and wfEntries :: "json obj \<Rightarrow> bool"
  and wfItems :: "json list \<Rightarrow> bool"
where
  "wfJson (JObj m) = (distinct (map fst m) \<and> wfEntries m)"
| "wfJson (JArr xs) = wfItems xs"
| "wfJson v = True"
| "wfEntries [] = True"
| "wfEntries ((k, v) # rest) = (wfJson v \<and> wfEntries rest)"
| "wfItems [] = True"
| "wfItems (x # xs) = (wfJson x \<and> wfItems xs)"

text \<open>
  \<open>walkedKey k j\<close>: some mapping node of \<open>j\<close> that does not lie below a sequence which is
  directly an element of another sequence holds the key \<open>k\<close>. These are the mapping
  nodes the sanitizer walks: the root, the mapping values of walked nodes, and the
  mapping elements of sequences that are values of walked nodes.
\<close>

fun walkedKey :: "string \<Rightarrow> json \<Rightarrow> bool"
  and walkedKeyEntries :: "string \<Rightarrow> json obj \<Rightarrow> bool"
  and walkedKeyItems :: "string \<Rightarrow> json list \<Rightarrow> bool"
  and walkedKeyItem :: "string \<Rightarrow> json \<Rightarrow> bool"
where
  "walkedKey k (JObj m) = walkedKeyEntries k m"
| "walkedKey k (JArr xs) = walkedKeyItems k xs"
| "walkedKey k v = False"
| "walkedKeyEntries k [] = False"
| "walkedKeyEntries k ((k', v) # rest) =
     (k' = k \<or> walkedKey k v \<or> walkedKeyEntries k rest)"
| "walkedKeyItems k [] = False"
| "walkedKeyItems k (x # xs) = (walkedKeyItem k x \<or> walkedKeyItems k xs)"
| "walkedKeyItem k (JObj m) = walkedKeyEntries k m"
| "walkedKeyItem k item = False"

text \<open>
  \<open>stableObj m\<close>: every mapping node the sanitizer walks holds each key once, holds no
  denylisted key and holds no key named \<^verbatim>\<open>__proto__\<close>.
\<close>

fun stableObj :: "json obj \<Rightarrow> bool"
  and stableEntries :: "json obj \<Rightarrow> bool"
  and stableValue :: "json \<Rightarrow> bool"
  and stableItems :: "json list \<Rightarrow> bool"
  and stableItem :: "json \<Rightarrow> bool"
where
  "stableObj m = (distinct (map fst m) \<and> stableEntries m)"
| "stableEntries [] = True"
| "stableEntries ((k, v) # rest) =
     (k \<notin> set STRIP_KEYS \<and> k \<noteq> ''__proto__'' \<and> stableValue v \<and> stableEntries rest)"
| "stableValue (JObj m) = stableObj m"
| "stableValue (JArr xs) = stableItems xs"
| "stableValue v = True"
| "stableItems [] = True"
| "stableItems (x # xs) = (stableItem x \<and> stableItems xs)"
| "stableItem (JObj m) = stableObj m"
| "stableItem item = True"


section \<open>Tool sets and their sanitization (sanitize-tools.ts)\<close>

text \<open>
  A tool carries its parameter schema and whatever else the provider attached to it
  (description, handler); the spread \<^verbatim>\<open>{...tool, inputSchema: x}\<close> replaces the schema and
  keeps the rest. \<^verbatim>\<open>asSchema\<close> and \<^verbatim>\<open>jsonSchema\<close> belong to the SDK: they are parameters.
  \<^verbatim>\<open>asSchema(s).jsonSchema\<close> is a JSON value, \<open>JUndefined\<close> when there is none.
  A tool set is built by assignment (by the SDK, then by \<^verbatim>\<open>Object.assign\<close>), which cannot
  create an own property named \<^verbatim>\<open>__proto__\<close>: no tool has that name, and on tool sets an
  assignment defines the property.
\<close>

record ('s, 'h) tool =
  inputSchema :: 's
  handler :: 'h

type_synonym ('s, 'h) ToolSet = "('s, 'h) tool obj"

text \<open>JavaScript truthiness and \<^verbatim>\<open>typeof v === "object"\<close> on JSON values.\<close>

fun truthy :: "json \<Rightarrow> bool" where
  "truthy JUndefined = False"
| "truthy JNull = False"
| "truthy (JBool b) = b"
| "truthy (JNum n) = (n \<noteq> 0)"
| "truthy (JStr s) = (s \<noteq> [])"
| "truthy (JArr xs) = True"
| "truthy (JObj m) = True"

fun typeofObject :: "json \<Rightarrow> bool" where
  "typeofObject JNull = True"
| "typeofObject (JArr xs) = True"
| "typeofObject (JObj m) = True"
| "typeofObject v = False"

text \<open>Decimal numerals, for the index keys of an array.\<close>

fun showNat :: "nat \<Rightarrow> string" where
  "showNat n =
     (if n < 10 then [''0123456789'' ! n]
      else showNat (n div 10) @ [''0123456789'' ! (n mod 10)])"

declare showNat.simps [simp del]

text \<open>\<^verbatim>\<open>Object.entries\<close> of a value that passed the guard: an object or an array.\<close>

fun objectEntries :: "json \<Rightarrow> json obj" where
  "objectEntries (JObj m) = m"
| "objectEntries (JArr xs) = zip (map showNat [0..<length xs]) xs"
| "objectEntries v = []"

fun sanitizeToolsLoop ::
  "('s \<Rightarrow> json) \<Rightarrow> (json obj \<Rightarrow> 's) \<Rightarrow> ('s, 'h) ToolSet \<Rightarrow> ('s, 'h) ToolSet
    \<Rightarrow> ('s, 'h) ToolSet"
where
  "sanitizeToolsLoop asSchema jsonSchema [] out = out"
| "sanitizeToolsLoop asSchema jsonSchema ((name, tool) # rest) out =
     (let raw = asSchema (inputSchema tool) in
      if \<not> truthy raw \<or> \<not> typeofObject raw
      then sanitizeToolsLoop asSchema jsonSchema rest (setProp out name tool)
      else
        (let cleaned = sanitizeSchema (objectEntries raw) in
         sanitizeToolsLoop asSchema jsonSchema rest
           (setProp out name (tool\<lparr>inputSchema := jsonSchema cleaned\<rparr>))))"

definition sanitizeTools ::
  "('s \<Rightarrow> json) \<Rightarrow> (json obj \<Rightarrow> 's) \<Rightarrow> ('s, 'h) ToolSet \<Rightarrow> ('s, 'h) ToolSet"
where
  "sanitizeTools asSchema jsonSchema tools = sanitizeToolsLoop asSchema jsonSchema tools []"

section \<open>Environment and provider descriptors (index.ts)\<close>

datatype error = Error string

type_synonym env = "string \<rightharpoonup> string"

text \<open>
  \<open>env\<close> holds the variables of the process. \<^verbatim>\<open>process.env[name]\<close> is a property lookup:
  for a name that is no variable it goes on to \<^verbatim>\<open>Object.prototype\<close>, and finds a function
  or an object there for the names every object inherits.
\<close>

definition objectPrototypeNames :: "string list" where
  "objectPrototypeNames =
     [''constructor'', ''hasOwnProperty'', ''isPrototypeOf'', ''propertyIsEnumerable'',
      ''toLocaleString'', ''toString'', ''valueOf'', ''__proto__'',
      ''__defineGetter__'', ''__defineSetter__'', ''__lookupGetter__'', ''__lookupSetter__'']"

datatype envValue = EnvUndefined | EnvString string | EnvInherited

definition envGet :: "env \<Rightarrow> string \<Rightarrow> envValue" where
  "envGet penv name =
     (case penv name of
        Some value \<Rightarrow> EnvString value
      | None \<Rightarrow> if name \<in> set objectPrototypeNames then EnvInherited else EnvUndefined)"

text \<open>
  \<^verbatim>\<open>!process.env[v]\<close>: the lookup gives \<^verbatim>\<open>undefined\<close> or the empty string. An inherited
  function or object is truthy.
\<close>

definition envMissing :: "env \<Rightarrow> string \<Rightarrow> bool" where
  "envMissing penv v =
     (case envGet penv v of
        EnvUndefined \<Rightarrow> True
      | EnvString value \<Rightarrow> value = []
      | EnvInherited \<Rightarrow> False)"

definition requireEnv :: "env \<Rightarrow> string \<Rightarrow> error + envValue" where
  "requireEnv penv name =
     (let value = envGet penv name in
      if envMissing penv name
      then Inl (Error (''Missing required env var: '' @ name
                  @ ''. Set it in .env or GitHub Secrets.''))
      else Inr value)"

text \<open>
  \<^verbatim>\<open>str.replace(/\$\{([^}]+)\}/g, (_, name) => process.env[name] ?? "")\<close>.
  \<open>splitBrace cs\<close> cuts \<open>cs\<close> at its first closing brace. Where the lookup finds an
  inherited function or object, the replacement is its text, \<open>inherited name\<close>, which
  the platform decides.
\<close>

fun splitBrace :: "string \<Rightarrow> (string \<times> string) option" where
  "splitBrace [] = None"
| "splitBrace (c # cs) =
     (if c = CHR ''}'' then Some ([], cs)
      else (case splitBrace cs of
              None \<Rightarrow> None
            | Some (name, rest) \<Rightarrow> Some (c # name, rest)))"

function expandEnvVars :: "(string \<Rightarrow> string) \<Rightarrow> env \<Rightarrow> string \<Rightarrow> string" where
  "expandEnvVars inherited penv [] = []"
| "expandEnvVars inherited penv [c] = [c]"
| "expandEnvVars inherited penv (c # d # cs) =
     (if c = CHR ''$'' \<and> d = CHR ''{''
      then (case splitBrace cs of
              None \<Rightarrow> c # expandEnvVars inherited penv (d # cs)
            | Some (name, rest) \<Rightarrow>
                if name = [] then c # expandEnvVars inherited penv (d # cs)
                else (case envGet penv name of
                        EnvUndefined \<Rightarrow> []
                      | EnvString value \<Rightarrow> value
                      | EnvInherited \<Rightarrow> inherited name)
                       @ expandEnvVars inherited penv rest)
      else c # expandEnvVars inherited penv (d # cs))"
  by pat_completeness auto
termination
proof -
  have shorter: "length rest < length cs" if "splitBrace cs = Some (name, rest)"
    for cs name rest
    using that by (induction cs arbitrary: name rest) (auto split: if_splits option.splits)
  show ?thesis
    by (relation "measure (\<lambda>(inherited, penv, s). length s)") (auto dest: shorter)
qed

datatype httpKind = Sse | Http

datatype McpTransport =
    McpHttpTransport httpKind string "string obj option" "string obj option"
  | McpStdioTransport string "string list option" "string obj option"

text \<open>
  \<open>expandAllEnvVars\<close> on the transport descriptor. A nested object (\<open>params\<close>, \<open>headers\<close>,
  \<open>env\<close>) is copied by the loop \<^verbatim>\<open>result[k] = expandAllEnvVars(v)\<close>, an array by \<^verbatim>\<open>map\<close>.
\<close>

fun expandValuesLoop ::
  "(string \<Rightarrow> string) \<Rightarrow> env \<Rightarrow> string obj \<Rightarrow> string obj \<Rightarrow> string obj"
where
  "expandValuesLoop inherited penv [] result = result"
| "expandValuesLoop inherited penv ((k, v) # rest) result =
     expandValuesLoop inherited penv rest
       (assignProp result k (expandEnvVars inherited penv v))"

definition expandValues :: "(string \<Rightarrow> string) \<Rightarrow> env \<Rightarrow> string obj \<Rightarrow> string obj" where
  "expandValues inherited penv ob = expandValuesLoop inherited penv ob []"

fun expandAllEnvVars :: "(string \<Rightarrow> string) \<Rightarrow> env \<Rightarrow> McpTransport \<Rightarrow> McpTransport" where
  "expandAllEnvVars inherited penv (McpHttpTransport kind url params headers) =
     McpHttpTransport kind (expandEnvVars inherited penv url)
       (map_option (expandValues inherited penv) params)
       (map_option (expandValues inherited penv) headers)"
| "expandAllEnvVars inherited penv (McpStdioTransport command args envOver) =
     McpStdioTransport (expandEnvVars inherited penv command)
       (map_option (map (expandEnvVars inherited penv)) args)
       (map_option (expandValues inherited penv) envOver)"

record McpServerConfig =
  requires :: "string list option"
  transport :: McpTransport


section \<open>Connecting to the providers (index.ts)\<close>

text \<open>
  The argument of \<^verbatim>\<open>createMCPClient\<close>: a stdio transport with its command, arguments and
  environment, or a network transport with its kind, URL and optional headers.
\<close>

datatype mcpClientArg =
    StdioArg string "string list" env
  | NetArg httpKind string "string obj option"

type_synonym client = nat

record ('s, 'h) ConnectedServer =
  name :: string
  client :: client
  tools :: "('s, 'h) ToolSet"

datatype role = User | Assistant

record message =
  role :: role
  content :: string

record toolCall =
  toolName :: string
  input :: json

record step =
  toolCalls :: "toolCall list"

record genResult =
  resultText :: string
  steps :: "step list"

datatype model =
    XaiModel string string
  | OpenAIModel string string
  | AnthropicModel string string
  | GoogleModel string string
  | OpenAIChatModel string string string

record modelConfig =
  provider :: string
  model_id :: string
  base_url :: "string option"

record AgentConfig =
  system_prompt :: string
  model :: modelConfig
  mcp_servers :: "McpServerConfig obj option"

text \<open>What the program prints, one constructor per \<^verbatim>\<open>console.log\<close> call of the source.\<close>

datatype logEvent =
    LogSkipping string "string list"
  | LogConnecting string
  | LogLoaded nat nat
  | LogRunningStrategy
  | LogStrategyComplete
  | LogToolCall string "json option"
  | LogRetrying nat
  | LogWarnNoSubmit nat
  | LogCompleted nat nat

text \<open>
  The world outside the program, as far as the claims observe it: the console, and the
  calls made to \<^verbatim>\<open>createMCPClient\<close>, to \<^verbatim>\<open>generateText\<close> (with the conversation passed) and
  to \<^verbatim>\<open>client.close\<close>, each in call order.
\<close>

record world =
  console :: "logEvent list"
  connectCalls :: "mcpClientArg list"
  generateCalls :: "message list list"
  closeCalls :: "client list"

text \<open>
  The SDK and the platform, as stubs. \<^verbatim>\<open>createMCPClient\<close> and \<^verbatim>\<open>generateText\<close> may answer
  differently from one call to the next: they receive the number of earlier calls. A stub
  that throws returns \<open>Inl\<close>; \<open>closeClient\<close> returns the error thrown by
  \<^verbatim>\<open>client.close()\<close>, if any. \<open>searchParams\<close> is \<^verbatim>\<open>new URLSearchParams(params).toString()\<close>;
  \<open>inheritedText name\<close> is the text of the value \<^verbatim>\<open>Object.prototype\<close> holds under \<open>name\<close>.
\<close>

record ('s, 'h) sdk =
  createMCPClient :: "nat \<Rightarrow> mcpClientArg \<Rightarrow> error + client"
  listTools :: "client \<Rightarrow> error + ('s, 'h) ToolSet"
  closeClient :: "client \<Rightarrow> error option"
  generateText ::
    "nat \<Rightarrow> model \<Rightarrow> ('s, 'h) ToolSet \<Rightarrow> nat \<Rightarrow> string \<Rightarrow> message list \<Rightarrow> error + genResult"
  asSchema :: "'s \<Rightarrow> json"
  jsonSchema :: "json obj \<Rightarrow> 's"
  searchParams :: "string obj \<Rightarrow> string"
  inheritedText :: "string \<Rightarrow> string"

definition buildTransportUrl :: "(string obj \<Rightarrow> string) \<Rightarrow> string \<Rightarrow> string obj option \<Rightarrow> string"
where
  "buildTransportUrl toQuery url params =
     (case params of
        None \<Rightarrow> url
      | Some ps \<Rightarrow> url @ (if CHR ''?'' \<in> set url then ''&'' else ''?'') @ toQuery ps)"

text \<open>The argument the source builds for \<^verbatim>\<open>createMCPClient\<close> from an expanded transport.\<close>

fun clientArg :: "(string obj \<Rightarrow> string) \<Rightarrow> env \<Rightarrow> McpTransport \<Rightarrow> mcpClientArg" where
  "clientArg toQuery penv (McpStdioTransport command args envOver) =
     StdioArg command (case args of None \<Rightarrow> [] | Some as \<Rightarrow> as)
       (penv ++ map_of (case envOver of None \<Rightarrow> [] | Some ev \<Rightarrow> ev))"
| "clientArg toQuery penv (McpHttpTransport kind url params headers) =
     NetArg kind (buildTransportUrl toQuery url params) headers"

text \<open>
  The loop of \<open>connectMcpServers\<close> over \<^verbatim>\<open>Object.entries(servers)\<close>, with the accumulator
  \<^verbatim>\<open>connected\<close>. A descriptor without a \<open>requires\<close> list has no missing variable. A
  throwing \<^verbatim>\<open>createMCPClient\<close> or \<^verbatim>\<open>client.tools()\<close> ends the function.
\<close>

fun connectLoop ::
  "('s, 'h) sdk \<Rightarrow> env \<Rightarrow> McpServerConfig obj \<Rightarrow> ('s, 'h) ConnectedServer list \<Rightarrow> world
    \<Rightarrow> (error + ('s, 'h) ConnectedServer list) \<times> world"
where
  "connectLoop sd penv [] connected w = (Inr connected, w)"
| "connectLoop sd penv ((nm, server) # rest) connected w =
     (let missing = (case requires server of
                       None \<Rightarrow> []
                     | Some reqs \<Rightarrow> filter (envMissing penv) reqs) in
      if missing \<noteq> []
      then connectLoop sd penv rest connected
             (w\<lparr>console := console w @ [LogSkipping nm missing]\<rparr>)
      else
        (let expanded = expandAllEnvVars (inheritedText sd) penv (transport server);
             w1 = w\<lparr>console := console w @ [LogConnecting nm]\<rparr>;
             arg = clientArg (searchParams sd) penv expanded;
             w2 = w1\<lparr>connectCalls := connectCalls w1 @ [arg]\<rparr> in
         case createMCPClient sd (length (connectCalls w1)) arg of
           Inl e \<Rightarrow> (Inl e, w2)
         | Inr cl \<Rightarrow>
             (case listTools sd cl of
                Inl e \<Rightarrow> (Inl e, w2)
              | Inr ts \<Rightarrow>
                  connectLoop sd penv rest
                    (connected @ [\<lparr>name = nm, client = cl, tools = ts\<rparr>]) w2)))"

definition connectMcpServers ::
  "('s, 'h) sdk \<Rightarrow> env \<Rightarrow> McpServerConfig obj \<Rightarrow> world
    \<Rightarrow> (error + ('s, 'h) ConnectedServer list) \<times> world"
where
  "connectMcpServers sd penv servers w = connectLoop sd penv servers [] w"

text \<open>\<^verbatim>\<open>Object.assign(target, source)\<close> and the merge loop of \<open>runConfigMode\<close>.\<close>

fun objectAssign :: "'v obj \<Rightarrow> 'v obj \<Rightarrow> 'v obj" where
  "objectAssign target [] = target"
| "objectAssign target ((k, v) # rest) = objectAssign (setProp target k v) rest"

fun mergeTools :: "('s, 'h) ConnectedServer list \<Rightarrow> ('s, 'h) ToolSet \<Rightarrow> ('s, 'h) ToolSet" where
  "mergeTools [] rawTools = rawTools"
| "mergeTools (server # rest) rawTools = mergeTools rest (objectAssign rawTools (tools server))"

text \<open>The \<^verbatim>\<open>finally\<close> block: close the servers in order; a throwing close ends the loop.\<close>

fun closeLoop :: "('s, 'h) sdk \<Rightarrow> ('s, 'h) ConnectedServer list \<Rightarrow> world \<Rightarrow> error option \<times> world"
where
  "closeLoop sd [] w = (None, w)"
| "closeLoop sd (server # rest) w =
     (let w1 = w\<lparr>closeCalls := closeCalls w @ [client server]\<rparr> in
      case closeClient sd (client server) of
        Some e \<Rightarrow> (Some e, w1)
      | None \<Rightarrow> closeLoop sd rest w1)"


section \<open>The decision loop (config-strategy.ts)\<close>

definition MAX_ATTEMPTS :: nat where
  "MAX_ATTEMPTS = 3"

definition SUBMIT_TOOL :: string where
  "SUBMIT_TOOL = ''submit_decision''"

definition getModel :: "env \<Rightarrow> AgentConfig \<Rightarrow> error + model" where
  "getModel penv config =
     (if envMissing penv ''LLM_API_KEY'' then Inl (Error ''Missing LLM_API_KEY env var'')
      else
        (let apiKey = (case penv ''LLM_API_KEY'' of None \<Rightarrow> [] | Some value \<Rightarrow> value);
             mc = model config in
         if provider mc = ''xai'' then Inr (XaiModel apiKey (model_id mc))
         else if provider mc = ''openai'' then Inr (OpenAIModel apiKey (model_id mc))
         else if provider mc = ''anthropic'' then Inr (AnthropicModel apiKey (model_id mc))
         else if provider mc = ''google'' then Inr (GoogleModel apiKey (model_id mc))
         else
           (case base_url mc of
              None \<Rightarrow>
                Inl (Error (''Unknown provider \"'' @ provider mc @ ''\" with no base_url''))
            | Some url \<Rightarrow>
                if url = []
                then Inl (Error (''Unknown provider \"'' @ provider mc @ ''\" with no base_url''))
                else Inr (OpenAIChatModel url apiKey (model_id mc)))))"

definition hasSubmitDecision :: "step list \<Rightarrow> bool" where
  "hasSubmitDecision sts =
     list_ex (\<lambda>st. list_ex (\<lambda>c. toolName c = SUBMIT_TOOL) (toolCalls st)) sts"

definition logSteps :: "step list \<Rightarrow> logEvent list" where
  "logSteps sts =
     concat (map (\<lambda>st. map (\<lambda>call.
        if toolName call = SUBMIT_TOOL then LogToolCall (toolName call) (Some (input call))
        else LogToolCall (toolName call) None) (toolCalls st)) sts)"

text \<open>The local variables of \<open>runConfigStrategy\<close>.\<close>

record strategyState =
  messages :: "message list"
  totalSteps :: nat
  totalToolCalls :: nat

definition seedMessage :: message where
  "seedMessage =
     \<lparr>role = User,
      content = ''Analyze the market and make your trading decision for this interval.''\<rparr>"

definition correctiveMessage :: message where
  "correctiveMessage =
     \<lparr>role = User,
      content = ''You did not call submit_decision. You MUST call submit_decision with your trades to complete your turn. Analyze the market and submit now.''\<rparr>"

text \<open>
  The \<^verbatim>\<open>for\<close> loop over \<open>attempt = 1 .. MAX_ATTEMPTS\<close>. A throwing \<^verbatim>\<open>generateText\<close> ends the
  function with the error; \<^verbatim>\<open>break\<close> returns the state reached.
\<close>

function attemptLoop ::
  "('s, 'h) sdk \<Rightarrow> model \<Rightarrow> ('s, 'h) ToolSet \<Rightarrow> AgentConfig \<Rightarrow> nat \<Rightarrow> strategyState \<Rightarrow> world
    \<Rightarrow> (error + strategyState) \<times> world"
where
  "attemptLoop sd mdl ts config attempt st w =
     (if attempt \<le> MAX_ATTEMPTS then
        (let w1 = w\<lparr>generateCalls := generateCalls w @ [messages st]\<rparr> in
         case generateText sd (length (generateCalls w)) mdl ts 10 (system_prompt config)
                (messages st) of
           Inl e \<Rightarrow> (Inl e, w1)
         | Inr result \<Rightarrow>
             (let w2 = w1\<lparr>console := console w1 @ logSteps (steps result)\<rparr>;
                  st1 = st\<lparr>totalSteps := totalSteps st + length (steps result),
                           totalToolCalls := totalToolCalls st
                             + foldl (\<lambda>n s. n + length (toolCalls s)) 0 (steps result)\<rparr> in
              if hasSubmitDecision (steps result) then (Inr st1, w2)
              else if attempt < MAX_ATTEMPTS then
                attemptLoop sd mdl ts config (attempt + 1)
                  (st1\<lparr>messages := messages st1
                         @ [\<lparr>role = Assistant, content = resultText result\<rparr>,
                            correctiveMessage]\<rparr>)
                  (w2\<lparr>console := console w2 @ [LogRetrying attempt]\<rparr>)
              else
                attemptLoop sd mdl ts config (attempt + 1) st1
                  (w2\<lparr>console := console w2 @ [LogWarnNoSubmit MAX_ATTEMPTS]\<rparr>)))
      else (Inr st, w))"
  by pat_completeness auto
termination
  by (relation "measure (\<lambda>(sd, mdl, ts, config, attempt, st, w). MAX_ATTEMPTS + 1 - attempt)")
    auto

declare attemptLoop.simps [simp del]

definition runConfigStrategy ::
  "('s, 'h) sdk \<Rightarrow> env \<Rightarrow> ('s, 'h) ToolSet \<Rightarrow> AgentConfig \<Rightarrow> world
    \<Rightarrow> (error + strategyState) \<times> world"
where
  "runConfigStrategy sd penv ts config w =
     (case getModel penv config of
        Inl e \<Rightarrow> (Inl e, w)
      | Inr mdl \<Rightarrow>
          (case attemptLoop sd mdl ts config 1
                  \<lparr>messages = [seedMessage], totalSteps = 0, totalToolCalls = 0\<rparr> w of
             (Inl e, w1) \<Rightarrow> (Inl e, w1)
           | (Inr st, w1) \<Rightarrow>
               (Inr st,
                w1\<lparr>console := console w1
                     @ [LogCompleted (totalSteps st) (totalToolCalls st)]\<rparr>)))"

text \<open>
  The source keeps no variable for the outcome of the loop. What a run reports is on the
  console: the exhaustion warning is printed when the loop ends without a submission.
  \<open>reportsSubmitted printed\<close> reads the lines a run printed.
\<close>

definition reportsSubmitted :: "logEvent list \<Rightarrow> bool" where
  "reportsSubmitted printed = (LogWarnNoSubmit MAX_ATTEMPTS \<notin> set printed)"

section \<open>One run in config mode (index.ts)\<close>

definition runConfigMode ::
  "('s, 'h) sdk \<Rightarrow> env \<Rightarrow> AgentConfig \<Rightarrow> world \<Rightarrow> (error + strategyState) \<times> world"
where
  "runConfigMode sd penv config w =
     (case connectMcpServers sd penv
             (case mcp_servers config of None \<Rightarrow> [] | Some servers \<Rightarrow> servers) w of
        (Inl e, w1) \<Rightarrow> (Inl e, w1)
      | (Inr servers, w1) \<Rightarrow>
          (let rawTools = mergeTools servers [];
               allTools = sanitizeTools (asSchema sd) (jsonSchema sd) rawTools;
               w2 = w1\<lparr>console := console w1
                      @ [LogLoaded (length allTools) (length servers), LogRunningStrategy]\<rparr>;
               (outcome, w3) =
                 (case runConfigStrategy sd penv allTools config w2 of
                    (Inl e, w') \<Rightarrow> (Inl e, w')
                  | (Inr st, w') \<Rightarrow>
                      (Inr st, w'\<lparr>console := console w' @ [LogStrategyComplete]\<rparr>));
               (closeError, w4) = closeLoop sd servers w3 in
           case closeError of
             Some e \<Rightarrow> (Inl e, w4)
           | None \<Rightarrow> (outcome, w4)))"


section \<open>Example values\<close>

text \<open>A fresh process, and one small configuration with two providers, used to run the model.\<close>

definition freshWorld :: world where
  "freshWorld = \<lparr>console = [], connectCalls = [], generateCalls = [], closeCalls = []\<rparr>"

definition exampleEnv :: env where
  "exampleEnv = [''LLM_API_KEY'' \<mapsto> ''k'', ''DATA_KEY'' \<mapsto> ''d'']"

definition dataServer :: McpServerConfig where
  "dataServer =
     \<lparr>requires = Some [''DATA_KEY''],
      transport = McpHttpTransport Http ''https://d''
        None (Some [(''Authorization'', ''${DATA_KEY}'')])\<rparr>"

definition exampleServers :: "McpServerConfig obj" where
  "exampleServers =
     [(''arena'', \<lparr>requires = None, transport = McpHttpTransport Sse ''https://a/sse'' None None\<rparr>),
      (''data'', dataServer)]"

definition exampleConfig :: AgentConfig where
  "exampleConfig =
     \<lparr>system_prompt = ''trade'',
      model = \<lparr>provider = ''xai'', model_id = ''grok'', base_url = None\<rparr>,
      mcp_servers = Some exampleServers\<rparr>"

definition exampleSdk :: "(json, nat) sdk" where
  "exampleSdk =
     \<lparr>createMCPClient = (\<lambda>n arg. Inr n),
      listTools = (\<lambda>c. Inr [(''t'', \<lparr>inputSchema = JObj [(''type'', JStr ''object'')],
                                      handler = c\<rparr>)]),
      closeClient = (\<lambda>c. None),
      generateText = (\<lambda>n mdl ts limit sys msgs.
        Inr \<lparr>resultText = ''done'',
             steps = [\<lparr>toolCalls = [\<lparr>toolName = ''submit_decision'', input = JNull\<rparr>]\<rparr>]\<rparr>),
      asSchema = (\<lambda>s. s),
      jsonSchema = JObj,
      searchParams = (\<lambda>ps. []),
      inheritedText = (\<lambda>name. ''[inherited]'')\<rparr>"

definition exampleConnected :: "(json, nat) ConnectedServer list" where
  "exampleConnected =
     [\<lparr>name = ''arena'', client = 0,
       tools = [(''t'', \<lparr>inputSchema = JObj [(''type'', JStr ''object'')], handler = 0\<rparr>)]\<rparr>,
      \<lparr>name = ''data'', client = 1,
       tools = [(''t'', \<lparr>inputSchema = JObj [(''type'', JStr ''object'')], handler = 1\<rparr>)]\<rparr>]"


definition idleStep :: step where
  "idleStep = \<lparr>toolCalls = [\<lparr>toolName = ''get_prices'', input = JNull\<rparr>]\<rparr>"


section \<open>Properties of the schema sanitizer\<close>

lemma setProp_fresh: "key \<notin> set (map fst ob) \<Longrightarrow> setProp ob key v = ob @ [(key, v)]"
  by (induction ob) auto

lemma setProp_keys: "fst ` set (setProp ob key v) = insert key (fst ` set ob)"
  by (induction ob) force+

lemma setProp_distinct: "distinct (map fst ob) \<Longrightarrow> distinct (map fst (setProp ob key v))"
  by (induction ob) (auto simp: setProp_keys)

lemma setProp_stable:
  "stableEntries ob \<Longrightarrow> key \<notin> set STRIP_KEYS \<Longrightarrow> key \<noteq> ''__proto__'' \<Longrightarrow> stableValue v
    \<Longrightarrow> stableEntries (setProp ob key v)"
  by (induction ob) auto

text \<open>On a stable tree the loop copies every entry: the sanitizer returns its input.\<close>

lemma sanitize_fix_aux:
  "stableObj m \<longrightarrow> sanitizeSchema m = m"
  "distinct (map fst (out @ rest)) \<longrightarrow> stableEntries rest
     \<longrightarrow> sanitizeEntries rest out = out @ rest"
  "stableValue v \<longrightarrow> sanitizeValue v = v"
  "stableItems xs \<longrightarrow> sanitizeItems xs = xs"
  "stableItem x \<longrightarrow> sanitizeItem x = x"
proof (induction m and rest out and v and xs and x
    rule: sanitizeSchema_sanitizeEntries_sanitizeValue_sanitizeItems_sanitizeItem.induct)
  case (3 key v rest out)
  then show ?case by (auto simp: setProp_fresh)
qed auto

text \<open>Whatever the input, the output is stable.\<close>

lemma sanitize_stable_aux:
  "stableObj (sanitizeSchema m)"
  "distinct (map fst out) \<longrightarrow> stableEntries out \<longrightarrow> stableObj (sanitizeEntries rest out)"
  "stableValue (sanitizeValue v)"
  "stableItems (sanitizeItems xs)"
  "stableItem (sanitizeItem x)"
proof (induction m and rest out and v and xs and x
    rule: sanitizeSchema_sanitizeEntries_sanitizeValue_sanitizeItems_sanitizeItem.induct)
  case (3 key v rest out)
  then show ?case by (auto simp: setProp_distinct setProp_stable)
qed auto

lemma hasStripKey_iff:
  "hasStripKey j = (\<exists>k \<in> set STRIP_KEYS. hasKey k j)"
  "hasStripKeyEntries m = (\<exists>k \<in> set STRIP_KEYS. hasKeyEntries k m)"
  "hasStripKeyItems xs = (\<exists>k \<in> set STRIP_KEYS. hasKeyItems k xs)"
  by (induction j and m and xs rule: hasStripKey_hasStripKeyEntries_hasStripKeyItems.induct)
    auto

text \<open>A walked mapping node is a mapping node.\<close>

lemma walkedKey_hasKey:
  "walkedKey k j \<longrightarrow> hasKey k j"
  "walkedKeyEntries k m \<longrightarrow> hasKeyEntries k m"
  "walkedKeyItems k xs \<longrightarrow> hasKeyItems k xs"
  "walkedKeyItem k x \<longrightarrow> hasKey k x"
  by (induction k j and k m and k xs and k x
      rule: walkedKey_walkedKeyEntries_walkedKeyItems_walkedKeyItem.induct) auto

lemma stable_not_walked:
  "stableEntries m \<longrightarrow> k \<in> set STRIP_KEYS \<or> k = ''__proto__'' \<longrightarrow> \<not> walkedKeyEntries k m"
  "stableEntries m \<longrightarrow> k \<in> set STRIP_KEYS \<or> k = ''__proto__'' \<longrightarrow> \<not> walkedKeyEntries k m"
  "stableValue v \<longrightarrow> k \<in> set STRIP_KEYS \<or> k = ''__proto__'' \<longrightarrow> \<not> walkedKey k v"
  "stableItems xs \<longrightarrow> k \<in> set STRIP_KEYS \<or> k = ''__proto__'' \<longrightarrow> \<not> walkedKeyItems k xs"
  "stableItem x \<longrightarrow> k \<in> set STRIP_KEYS \<or> k = ''__proto__'' \<longrightarrow> \<not> walkedKeyItem k x"
  by (induction m and m and v and xs and x
      rule: stableObj_stableEntries_stableValue_stableItems_stableItem.induct) auto

lemma clean_wf_stable:
  "wfJson j \<longrightarrow> \<not> hasStripKey j \<longrightarrow> \<not> walkedKey ''__proto__'' j \<longrightarrow> stableValue j"
  "wfEntries m \<longrightarrow> \<not> hasStripKeyEntries m \<longrightarrow> \<not> walkedKeyEntries ''__proto__'' m
     \<longrightarrow> stableEntries m"
  "wfItems xs \<longrightarrow> \<not> hasStripKeyItems xs \<longrightarrow> \<not> walkedKeyItems ''__proto__'' xs
     \<longrightarrow> stableItems xs"
  by (induction j and m and xs rule: wfJson_wfEntries_wfItems.induct)
     (auto elim: stableItem.elims walkedKeyItem.elims)

text \<open>
  Claim C1, as stated: whenever a schema tree holds a denylisted key at any depth,
  nested sequences included, the output of the sanitizer holds that key in no mapping
  node. It fails where a sequence is directly an element of a sequence: the callback of
  \<^verbatim>\<open>value.map\<close> returns such an element as it is. The schema
  \<^verbatim>\<open>{"enum": [[{"pattern": "x"}]]}\<close> comes back unchanged, \<^verbatim>\<open>pattern\<close> included.
\<close>

theorem sanitize_keeps_key_in_nested_sequence:
  "''pattern'' \<in> set STRIP_KEYS
   \<and> hasKey ''pattern'' (JObj [(''enum'', JArr [JArr [JObj [(''pattern'', JStr ''x'')]]])])
   \<and> sanitizeSchema [(''enum'', JArr [JArr [JObj [(''pattern'', JStr ''x'')]]])]
       = [(''enum'', JArr [JArr [JObj [(''pattern'', JStr ''x'')]]])]
   \<and> hasKey ''pattern''
       (JObj (sanitizeSchema [(''enum'', JArr [JArr [JObj [(''pattern'', JStr ''x'')]]])]))"
  by (simp add: STRIP_KEYS_def)

text \<open>
  Claim C1, amended: for every schema tree and every denylisted key, the output of the
  sanitizer holds that key in no mapping node, except in mapping nodes that lie below a
  sequence which is directly an element of another sequence.
\<close>

theorem sanitize_strips_denylist:
  assumes "k \<in> set STRIP_KEYS"
  shows "\<not> walkedKey k (JObj (sanitizeSchema s))"
  using assms sanitize_stable_aux(1) [of s] stable_not_walked(1) [of "sanitizeSchema s" k]
  by simp

theorem sanitize_strips_denylist_witness:
  "''pattern'' \<in> set STRIP_KEYS
   \<and> hasKey ''pattern'' (JObj [(''enum'', JArr [JArr [JNum 1, JNum 2]]),
        (''a'', JObj [(''anyOf'', JArr [JObj [(''pattern'', JStr ''x'')], JNull])])])
   \<and> \<not> walkedKey ''pattern'' (JObj (sanitizeSchema [(''enum'', JArr [JArr [JNum 1, JNum 2]]),
        (''a'', JObj [(''anyOf'', JArr [JObj [(''pattern'', JStr ''x'')], JNull])])]))
   \<and> sanitizeSchema [(''enum'', JArr [JArr [JNum 1, JNum 2]]),
        (''a'', JObj [(''anyOf'', JArr [JObj [(''pattern'', JStr ''x'')], JNull])])]
      = [(''enum'', JArr [JArr [JNum 1, JNum 2]]),
         (''a'', JObj [(''anyOf'', JArr [JObj [], JNull])])]"
proof -
  have key: "''pattern'' \<in> set STRIP_KEYS"
    by (simp add: STRIP_KEYS_def)
  show ?thesis
    using sanitize_strips_denylist [OF key, of "[(''enum'', JArr [JArr [JNum 1, JNum 2]]),
        (''a'', JObj [(''anyOf'', JArr [JObj [(''pattern'', JStr ''x'')], JNull])])]"] key
    by (simp add: STRIP_KEYS_def)
qed

text \<open>
  Claim C7: the sanitizer is idempotent, \<open>sanitize (sanitize s) = sanitize s\<close> for every
  schema tree \<open>s\<close>.
\<close>

theorem sanitize_idempotent: "sanitizeSchema (sanitizeSchema s) = sanitizeSchema s"
  using sanitize_fix_aux(1) sanitize_stable_aux(1) by blast

text \<open>
  Claim C8, as stated: on a schema tree that holds no denylisted key in any mapping node
  at any depth, the sanitizer is the identity. It fails on a tree with a key named
  \<^verbatim>\<open>__proto__\<close>: the assignment \<^verbatim>\<open>out[key] = ...\<close> creates no own property for it. The tree
  parsed from \<^verbatim>\<open>{"__proto__": {"a": 1}, "b": 2}\<close> comes back as \<^verbatim>\<open>{"b": 2}\<close>.
\<close>

theorem sanitize_drops_proto_key:
  "wfJson (JObj [(''__proto__'', JObj [(''a'', JNum 1)]), (''b'', JNum 2)])
   \<and> \<not> hasStripKey (JObj [(''__proto__'', JObj [(''a'', JNum 1)]), (''b'', JNum 2)])
   \<and> sanitizeSchema [(''__proto__'', JObj [(''a'', JNum 1)]), (''b'', JNum 2)]
       = [(''b'', JNum 2)]
   \<and> sanitizeSchema [(''__proto__'', JObj [(''a'', JNum 1)]), (''b'', JNum 2)]
       \<noteq> [(''__proto__'', JObj [(''a'', JNum 1)]), (''b'', JNum 2)]"
  by (simp add: STRIP_KEYS_def)

text \<open>
  Claim C8, amended: on a schema tree that holds no denylisted key in any mapping node at
  any depth, and no key named \<^verbatim>\<open>__proto__\<close> in any mapping node the sanitizer walks (those
  not below a sequence which is directly an element of another sequence), the sanitizer
  is the identity. The tree is a well-formed object tree: no mapping node holds a key
  twice.
\<close>

theorem sanitize_identity_on_clean:
  assumes "wfJson (JObj s)" and "\<not> hasStripKey (JObj s)"
    and "\<not> walkedKey ''__proto__'' (JObj s)"
  shows "sanitizeSchema s = s"
  using assms sanitize_fix_aux(1)[of s] clean_wf_stable(2)[of s] by simp

theorem sanitize_identity_on_clean_witness:
  "wfJson (JObj [(''type'', JStr ''object''),
      (''required'', JArr [JStr ''a'']),
      (''examples'', JArr [JArr [JObj [(''__proto__'', JNum 1)]]]),
      (''properties'', JObj [(''a'', JObj [(''type'', JStr ''string'')])])])
   \<and> \<not> hasStripKey (JObj [(''type'', JStr ''object''),
      (''required'', JArr [JStr ''a'']),
      (''examples'', JArr [JArr [JObj [(''__proto__'', JNum 1)]]]),
      (''properties'', JObj [(''a'', JObj [(''type'', JStr ''string'')])])])
   \<and> \<not> walkedKey ''__proto__'' (JObj [(''type'', JStr ''object''),
      (''required'', JArr [JStr ''a'']),
      (''examples'', JArr [JArr [JObj [(''__proto__'', JNum 1)]]]),
      (''properties'', JObj [(''a'', JObj [(''type'', JStr ''string'')])])])
   \<and> sanitizeSchema [(''type'', JStr ''object''),
      (''required'', JArr [JStr ''a'']),
      (''examples'', JArr [JArr [JObj [(''__proto__'', JNum 1)]]]),
      (''properties'', JObj [(''a'', JObj [(''type'', JStr ''string'')])])]
     = [(''type'', JStr ''object''),
      (''required'', JArr [JStr ''a'']),
      (''examples'', JArr [JArr [JObj [(''__proto__'', JNum 1)]]]),
      (''properties'', JObj [(''a'', JObj [(''type'', JStr ''string'')])])]"
proof -
  let ?s = "[(''type'', JStr ''object''),
      (''required'', JArr [JStr ''a'']),
      (''examples'', JArr [JArr [JObj [(''__proto__'', JNum 1)]]]),
      (''properties'', JObj [(''a'', JObj [(''type'', JStr ''string'')])])]"
  have wf: "wfJson (JObj ?s)"
    by simp
  have clean: "\<not> hasStripKey (JObj ?s)"
    by (simp add: STRIP_KEYS_def)
  have plain: "\<not> walkedKey ''__proto__'' (JObj ?s)"
    by simp
  show ?thesis
    using sanitize_identity_on_clean [OF wf clean plain] wf clean plain by simp
qed

section \<open>Properties of the tool-set sanitizer\<close>

lemma getProp_setProp: "getProp (setProp ob key v) k = (if k = key then Some v else getProp ob k)"
  by (induction ob) (auto simp: getProp_def)

lemma sanitizeToolsLoop_names:
  "fst ` set (sanitizeToolsLoop as js ts out) = fst ` set out \<union> fst ` set ts"
  by (induction as js ts out rule: sanitizeToolsLoop.induct)
    (auto simp: Let_def setProp_keys)

lemma sanitizeToolsLoop_keeps:
  assumes "distinct (map fst ts)" and "(nm, t) \<in> set ts"
    and "\<not> truthy (as (inputSchema t)) \<or> \<not> typeofObject (as (inputSchema t))"
  shows "getProp (sanitizeToolsLoop as js ts out) nm = Some t"
  using assms
proof (induction as js ts out rule: sanitizeToolsLoop.induct)
  case (1 as js out)
  then show ?case by simp
next
  case (2 as js name tool rest out)
  have later: "getProp (sanitizeToolsLoop as js rest out') k = getProp out' k"
    if "k \<notin> fst ` set rest" for out' k
    using that
    by (induction as js rest out' rule: sanitizeToolsLoop.induct)
      (auto simp: Let_def getProp_setProp)
  show ?case
  proof (cases "(nm, t) = (name, tool)")
    case True
    have fresh: "name \<notin> fst ` set rest"
      using "2.prems"(1) by simp
    show ?thesis
      using True "2.prems"(3) by (auto simp: Let_def later [OF fresh] getProp_setProp)
  next
    case False
    with 2 show ?thesis
      by (auto simp: Let_def)
  qed
qed

lemma sanitizeToolsLoop_order:
  "distinct (map fst (out @ ts)) \<Longrightarrow>
   map fst (sanitizeToolsLoop as js ts out) = map fst out @ map fst ts"
  by (induction as js ts out rule: sanitizeToolsLoop.induct)
    (auto simp: Let_def setProp_fresh)

text \<open>
  Claim C9: a tool whose parameter schema does not resolve to a structural object form
  (\<^verbatim>\<open>asSchema(tool.inputSchema).jsonSchema\<close> is falsy, or is not of type object) stays in
  the output of \<open>sanitizeTools\<close> under its name, unchanged, and the output lists the same
  tool names as the input: no tool is removed. The tool set is an object: it holds each
  name once.
\<close>

theorem sanitizeTools_keeps_unresolved:
  assumes "distinct (map fst ts)" and "(nm, t) \<in> set ts"
    and "\<not> truthy (as (inputSchema t)) \<or> \<not> typeofObject (as (inputSchema t))"
  shows "getProp (sanitizeTools as js ts) nm = Some t
         \<and> map fst (sanitizeTools as js ts) = map fst ts"
  using assms sanitizeToolsLoop_keeps [of ts nm t as js "[]"]
    sanitizeToolsLoop_order [of "[]" ts as js]
  by (simp add: sanitizeTools_def)

theorem sanitizeTools_keeps_unresolved_witness:
  "distinct (map fst
     [(''a'', \<lparr>inputSchema = JUndefined, handler = (0::nat)\<rparr>),
      (''b'', \<lparr>inputSchema = JObj [(''pattern'', JStr ''x'')], handler = 1\<rparr>)])
   \<and> (''a'', \<lparr>inputSchema = JUndefined, handler = (0::nat)\<rparr>)
       \<in> set [(''a'', \<lparr>inputSchema = JUndefined, handler = (0::nat)\<rparr>),
              (''b'', \<lparr>inputSchema = JObj [(''pattern'', JStr ''x'')], handler = 1\<rparr>)]
   \<and> \<not> truthy JUndefined
   \<and> getProp (sanitizeTools (\<lambda>s. s) JObj
        [(''a'', \<lparr>inputSchema = JUndefined, handler = (0::nat)\<rparr>),
         (''b'', \<lparr>inputSchema = JObj [(''pattern'', JStr ''x'')], handler = 1\<rparr>)]) ''a''
       = Some \<lparr>inputSchema = JUndefined, handler = 0\<rparr>
   \<and> map fst (sanitizeTools (\<lambda>s. s) JObj
        [(''a'', \<lparr>inputSchema = JUndefined, handler = (0::nat)\<rparr>),
         (''b'', \<lparr>inputSchema = JObj [(''pattern'', JStr ''x'')], handler = 1\<rparr>)])
       = [''a'', ''b'']"
proof -
  let ?ts = "[(''a'', \<lparr>inputSchema = JUndefined, handler = (0::nat)\<rparr>),
              (''b'', \<lparr>inputSchema = JObj [(''pattern'', JStr ''x'')], handler = 1\<rparr>)]"
  have d: "distinct (map fst ?ts)" by simp
  have m: "(''a'', \<lparr>inputSchema = JUndefined, handler = (0::nat)\<rparr>) \<in> set ?ts" by simp
  have u: "\<not> truthy ((\<lambda>s. s) (inputSchema \<lparr>inputSchema = JUndefined, handler = (0::nat)\<rparr>))
           \<or> \<not> typeofObject ((\<lambda>s. s) (inputSchema \<lparr>inputSchema = JUndefined, handler = (0::nat)\<rparr>))"
    by simp
  show ?thesis
    using sanitizeTools_keeps_unresolved
      [where ts = ?ts and nm = "''a''" and as = "\<lambda>s. s" and js = JObj
         and t = "\<lparr>inputSchema = JUndefined, handler = (0::nat)\<rparr>"] d m u
    by simp
qed

section \<open>Properties of the credential gate\<close>

lemma gate_skips:
  assumes "requires server = Some reqs" and "v \<in> set reqs" and "envMissing penv v"
  shows "connectLoop sd penv ((nm, server) # rest) connected w =
         connectLoop sd penv rest connected
           (w\<lparr>console := console w @ [LogSkipping nm (filter (envMissing penv) reqs)]\<rparr>)"
proof -
  have "filter (envMissing penv) reqs \<noteq> []"
    using assms(2,3) by (auto simp: filter_empty_conv)
  then show ?thesis
    using assms(1) by (simp add: Let_def)
qed

text \<open>
  Claim C5, as stated: a provider whose \<open>requires\<close> list names an environment variable
  that is absent is skipped. It fails for a name every object inherits from
  \<^verbatim>\<open>Object.prototype\<close>: with \<^verbatim>\<open>requires = ["toString"]\<close> and no such variable, the lookup
  \<^verbatim>\<open>process.env["toString"]\<close> finds the inherited function, the gate lets the provider
  through and the connection is made.
\<close>

theorem gate_connects_on_inherited_name:
  "requires (dataServer\<lparr>requires := Some [''toString'']\<rparr>) = Some [''toString'']
   \<and> [''LLM_API_KEY'' \<mapsto> ''k''] ''toString'' = None
   \<and> connectMcpServers exampleSdk [''LLM_API_KEY'' \<mapsto> ''k'']
         [(''data'', dataServer\<lparr>requires := Some [''toString'']\<rparr>)] freshWorld
       = (Inr [\<lparr>name = ''data'', client = 0,
                 tools = [(''t'', \<lparr>inputSchema = JObj [(''type'', JStr ''object'')],
                                   handler = 0\<rparr>)]\<rparr>],
          \<lparr>console = [LogConnecting ''data''],
           connectCalls = [NetArg Http ''https://d'' (Some [(''Authorization'', [])])],
           generateCalls = [], closeCalls = []\<rparr>)"
  by (simp add: connectMcpServers_def exampleSdk_def dataServer_def freshWorld_def
      envMissing_def envGet_def objectPrototypeNames_def Let_def expandValues_def
      buildTransportUrl_def)

text \<open>
  Claim C5, amended: a provider whose \<open>requires\<close> list names an environment variable
  that is absent, and whose name is not one every object inherits from
  \<^verbatim>\<open>Object.prototype\<close>, is skipped. Wherever the loop meets it, it goes on with the
  remaining providers from the same list of connected servers and the same world, one
  line added to the console: no \<^verbatim>\<open>createMCPClient\<close> call is made for it and it adds no
  server, hence no tool. Alone in the configuration, it yields the empty list of
  servers, not an error.
\<close>

theorem gate_skips_absent:
  assumes "requires server = Some reqs" and "v \<in> set reqs" and "penv v = None"
    and "v \<notin> set objectPrototypeNames"
  shows "connectLoop sd penv ((nm, server) # rest) connected w =
           connectLoop sd penv rest connected
             (w\<lparr>console := console w @ [LogSkipping nm (filter (envMissing penv) reqs)]\<rparr>)
       \<and> connectMcpServers sd penv [(nm, server)] w =
           (Inr [], w\<lparr>console := console w
                        @ [LogSkipping nm (filter (envMissing penv) reqs)]\<rparr>)"
proof -
  have "envMissing penv v"
    using assms(3,4) by (simp add: envMissing_def envGet_def)
  then show ?thesis
    using gate_skips [OF assms(1,2), of penv sd nm] by (simp add: connectMcpServers_def)
qed

theorem gate_skips_absent_witness:
  "requires dataServer = Some [''DATA_KEY'']
   \<and> ''DATA_KEY'' \<in> set [''DATA_KEY'']
   \<and> [''LLM_API_KEY'' \<mapsto> ''k''] ''DATA_KEY'' = None
   \<and> ''DATA_KEY'' \<notin> set objectPrototypeNames
   \<and> connectMcpServers exampleSdk [''LLM_API_KEY'' \<mapsto> ''k''] [(''data'', dataServer)] freshWorld
       = (Inr [], freshWorld\<lparr>console := [LogSkipping ''data'' [''DATA_KEY'']]\<rparr>)
   \<and> connectCalls (snd (connectMcpServers exampleSdk [''LLM_API_KEY'' \<mapsto> ''k'']
         [(''data'', dataServer)] freshWorld)) = []"
proof -
  have r: "requires dataServer = Some [''DATA_KEY'']" by (simp add: dataServer_def)
  have v: "''DATA_KEY'' \<in> set [''DATA_KEY'']" by simp
  have a: "[''LLM_API_KEY'' \<mapsto> ''k''] ''DATA_KEY'' = None" by simp
  have p: "''DATA_KEY'' \<notin> set objectPrototypeNames" by (simp add: objectPrototypeNames_def)
  show ?thesis
    using gate_skips_absent
      [where server = dataServer and reqs = "[''DATA_KEY'']" and v = "''DATA_KEY''"
         and penv = "[''LLM_API_KEY'' \<mapsto> ''k'']" and sd = exampleSdk and nm = "''data''"
         and rest = "[]" and connected = "[]" and w = freshWorld] r v a p
    by (simp add: envMissing_def envGet_def objectPrototypeNames_def freshWorld_def)
qed

lemma filter_envMissing_unset:
  "penv v = Some [] \<Longrightarrow> v \<notin> set objectPrototypeNames
    \<Longrightarrow> filter (envMissing (penv(v := None))) reqs = filter (envMissing penv) reqs"
  by (rule filter_cong) (auto simp: envMissing_def envGet_def)

text \<open>\<open>requireEnv\<close> reads the environment the same way: an empty value is a missing one.\<close>

lemma requireEnv_empty:
  "penv v = Some [] \<Longrightarrow> v \<notin> set objectPrototypeNames
    \<Longrightarrow> requireEnv penv v = requireEnv (penv(v := None)) v"
  by (simp add: requireEnv_def envMissing_def envGet_def)

text \<open>
  Claim C10, as stated: a provider whose \<open>requires\<close> list names a variable set to the
  empty string is skipped exactly as if the variable were unset. It fails for a name
  every object inherits from \<^verbatim>\<open>Object.prototype\<close>: with \<^verbatim>\<open>requires = ["toString"]\<close> the
  provider is skipped when the variable is set to the empty string, and connected when
  the variable is unset.
\<close>

theorem empty_differs_from_unset_on_inherited_name:
  "requires (dataServer\<lparr>requires := Some [''toString'']\<rparr>) = Some [''toString'']
   \<and> [''LLM_API_KEY'' \<mapsto> ''k'', ''toString'' \<mapsto> ''''] ''toString'' = Some ''''
   \<and> fst (connectMcpServers exampleSdk [''LLM_API_KEY'' \<mapsto> ''k'', ''toString'' \<mapsto> '''']
         [(''data'', dataServer\<lparr>requires := Some [''toString'']\<rparr>)] freshWorld)
       = Inr []
   \<and> fst (connectMcpServers exampleSdk [''LLM_API_KEY'' \<mapsto> ''k'']
         [(''data'', dataServer\<lparr>requires := Some [''toString'']\<rparr>)] freshWorld)
       = Inr [\<lparr>name = ''data'', client = 0,
                tools = [(''t'', \<lparr>inputSchema = JObj [(''type'', JStr ''object'')],
                                  handler = 0\<rparr>)]\<rparr>]"
  by (simp add: connectMcpServers_def exampleSdk_def dataServer_def freshWorld_def
      envMissing_def envGet_def objectPrototypeNames_def Let_def expandValues_def
      buildTransportUrl_def)

text \<open>
  Claim C10, amended: an environment variable set to the empty string counts as missing
  at the credential gate: a provider whose \<open>requires\<close> list names such a variable is
  skipped. When the name of the variable is not one every object inherits from
  \<^verbatim>\<open>Object.prototype\<close>, the loop treats the provider exactly as it does when the variable is
  unset.
\<close>

theorem gate_treats_empty_as_absent:
  assumes "requires server = Some reqs" and "v \<in> set reqs" and "penv v = Some []"
  shows "envMissing penv v
    \<and> connectLoop sd penv ((nm, server) # rest) connected w =
        connectLoop sd penv rest connected
          (w\<lparr>console := console w @ [LogSkipping nm (filter (envMissing penv) reqs)]\<rparr>)
    \<and> (v \<notin> set objectPrototypeNames \<longrightarrow>
        connectLoop sd penv [(nm, server)] connected w =
        connectLoop sd (penv(v := None)) [(nm, server)] connected w)"
proof -
  have m: "envMissing penv v" using assms(3) by (simp add: envMissing_def envGet_def)
  have "connectLoop sd penv [(nm, server)] connected w =
        connectLoop sd (penv(v := None)) [(nm, server)] connected w"
    if plain: "v \<notin> set objectPrototypeNames"
  proof -
    have m': "envMissing (penv(v := None)) v"
      using plain by (simp add: envMissing_def envGet_def)
    have same: "filter (envMissing (penv(v := None))) reqs = filter (envMissing penv) reqs"
      using assms(3) plain by (rule filter_envMissing_unset)
    show ?thesis
      unfolding gate_skips [OF assms(1,2) m] gate_skips [OF assms(1,2) m'] same by simp
  qed
  then show ?thesis
    using m gate_skips [OF assms(1,2) m, of sd nm rest connected w] by blast
qed

theorem gate_treats_empty_as_absent_witness:
  "requires dataServer = Some [''DATA_KEY'']
   \<and> ''DATA_KEY'' \<in> set [''DATA_KEY'']
   \<and> [''LLM_API_KEY'' \<mapsto> ''k'', ''DATA_KEY'' \<mapsto> ''''] ''DATA_KEY'' = Some ''''
   \<and> ''DATA_KEY'' \<notin> set objectPrototypeNames
   \<and> connectMcpServers exampleSdk [''LLM_API_KEY'' \<mapsto> ''k'', ''DATA_KEY'' \<mapsto> '''']
         [(''data'', dataServer)] freshWorld
       = (Inr [], freshWorld\<lparr>console := [LogSkipping ''data'' [''DATA_KEY'']]\<rparr>)
   \<and> connectMcpServers exampleSdk [''LLM_API_KEY'' \<mapsto> ''k'', ''DATA_KEY'' \<mapsto> '''']
         [(''data'', dataServer)] freshWorld
       = connectMcpServers exampleSdk
           ([''LLM_API_KEY'' \<mapsto> ''k'', ''DATA_KEY'' \<mapsto> ''''](''DATA_KEY'' := None))
           [(''data'', dataServer)] freshWorld"
proof -
  have r: "requires dataServer = Some [''DATA_KEY'']" by (simp add: dataServer_def)
  have v: "''DATA_KEY'' \<in> set [''DATA_KEY'']" by simp
  have e: "[''LLM_API_KEY'' \<mapsto> ''k'', ''DATA_KEY'' \<mapsto> ''''] ''DATA_KEY'' = Some ''''" by simp
  have p: "''DATA_KEY'' \<notin> set objectPrototypeNames" by (simp add: objectPrototypeNames_def)
  show ?thesis
    using gate_treats_empty_as_absent
      [where server = dataServer and reqs = "[''DATA_KEY'']" and v = "''DATA_KEY''"
         and penv = "[''LLM_API_KEY'' \<mapsto> ''k'', ''DATA_KEY'' \<mapsto> '''']"
         and sd = exampleSdk and nm = "''data''"
         and rest = "[]" and connected = "[]" and w = freshWorld] r v e p
    by (simp add: envMissing_def envGet_def objectPrototypeNames_def freshWorld_def
        connectMcpServers_def)
qed

section \<open>Properties of the merge\<close>

lemma getProp_Cons: "getProp ((k', v) # ob) k = (if k = k' then Some v else getProp ob k)"
  by (simp add: getProp_def)

lemma getProp_fresh: "k \<notin> fst ` set ob \<Longrightarrow> getProp ob k = None"
  by (simp add: getProp_def map_of_eq_None_iff)

lemma objectAssign_get:
  "distinct (map fst src) \<Longrightarrow>
   getProp (objectAssign target src) k =
     (case getProp src k of Some v \<Rightarrow> Some v | None \<Rightarrow> getProp target k)"
proof (induction target src rule: objectAssign.induct)
  case (1 target)
  then show ?case by (simp add: getProp_def)
next
  case (2 target k' v rest)
  then show ?case
    by (auto simp: getProp_setProp getProp_Cons getProp_fresh split: option.splits)
qed

lemma mergeTools_append:
  "mergeTools (xs @ ys) rawTools = mergeTools ys (mergeTools xs rawTools)"
  by (induction xs arbitrary: rawTools) auto

lemma mergeTools_untouched:
  "\<forall>S \<in> set post. distinct (map fst (tools S)) \<and> getProp (tools S) t = None
    \<Longrightarrow> getProp (mergeTools post rawTools) t = getProp rawTools t"
  by (induction post arbitrary: rawTools) (auto simp: objectAssign_get)

text \<open>
  Claim C6: when providers \<open>A\<close> and \<open>B\<close> are connected in that order and both expose a
  tool named \<open>t\<close>, the merged tool set maps \<open>t\<close> to the tool of \<open>B\<close>, provided no provider
  connected after \<open>B\<close> exposes \<open>t\<close> as well. The merge is a total function: a collision
  raises nothing. Each provider's tool set is an object: it holds each name once.
\<close>

theorem merge_last_write_wins:
  assumes "getProp (tools A) t = Some ta" and "getProp (tools B) t = Some tb"
    and "distinct (map fst (tools B))"
    and "\<forall>S \<in> set post. distinct (map fst (tools S)) \<and> getProp (tools S) t = None"
  shows "getProp (mergeTools (pre @ A # mid @ B # post) []) t = Some tb"
proof -
  have "mergeTools (pre @ A # mid @ B # post) [] =
          mergeTools post (objectAssign (mergeTools (pre @ A # mid) []) (tools B))"
    using mergeTools_append [of "pre @ A # mid" "B # post" "[]"] by simp
  then show ?thesis
    using assms(2,3) mergeTools_untouched [OF assms(4)] by (simp add: objectAssign_get)
qed

theorem merge_last_write_wins_witness:
  "getProp (tools (exampleConnected ! 0)) ''t''
     = Some \<lparr>inputSchema = JObj [(''type'', JStr ''object'')], handler = 0\<rparr>
   \<and> getProp (tools (exampleConnected ! 1)) ''t''
     = Some \<lparr>inputSchema = JObj [(''type'', JStr ''object'')], handler = 1\<rparr>
   \<and> distinct (map fst (tools (exampleConnected ! 1)))
   \<and> getProp (mergeTools [exampleConnected ! 0, exampleConnected ! 1] []) ''t''
     = Some \<lparr>inputSchema = JObj [(''type'', JStr ''object'')], handler = 1\<rparr>"
proof -
  have a: "getProp (tools (exampleConnected ! 0)) ''t''
     = Some \<lparr>inputSchema = JObj [(''type'', JStr ''object'')], handler = 0\<rparr>"
    by (simp add: exampleConnected_def getProp_def)
  have b: "getProp (tools (exampleConnected ! 1)) ''t''
     = Some \<lparr>inputSchema = JObj [(''type'', JStr ''object'')], handler = 1\<rparr>"
    by (simp add: exampleConnected_def getProp_def)
  have d: "distinct (map fst (tools (exampleConnected ! 1)))"
    by (simp add: exampleConnected_def)
  have p: "\<forall>S \<in> set ([] :: (json, nat) ConnectedServer list).
             distinct (map fst (tools S)) \<and> getProp (tools S) ''t'' = None"
    by simp
  show ?thesis
    using merge_last_write_wins [OF a b d p, of "[]" "[]"] a b d by simp
qed

section \<open>Properties of the decision loop\<close>

lemma attemptLoop_done:
  "MAX_ATTEMPTS < attempt \<Longrightarrow> attemptLoop sd mdl ts config attempt st w = (Inr st, w)"
  by (simp add: attemptLoop.simps [of sd mdl ts config attempt st w])

lemma attemptLoop_throw:
  assumes "attempt \<le> MAX_ATTEMPTS"
    and "generateText sd (length (generateCalls w)) mdl ts 10 (system_prompt config)
           (messages st) = Inl e"
  shows "attemptLoop sd mdl ts config attempt st w =
           (Inl e, w\<lparr>generateCalls := generateCalls w @ [messages st]\<rparr>)"
  using assms by (simp add: attemptLoop.simps [of sd mdl ts config attempt st w])

lemma attemptLoop_submit:
  assumes "attempt \<le> MAX_ATTEMPTS"
    and "generateText sd (length (generateCalls w)) mdl ts 10 (system_prompt config)
           (messages st) = Inr r"
    and "hasSubmitDecision (steps r)"
  shows "attemptLoop sd mdl ts config attempt st w =
           (Inr (st\<lparr>totalSteps := totalSteps st + length (steps r),
                     totalToolCalls := totalToolCalls st
                       + foldl (\<lambda>n s. n + length (toolCalls s)) 0 (steps r)\<rparr>),
            w\<lparr>generateCalls := generateCalls w @ [messages st],
              console := console w @ logSteps (steps r)\<rparr>)"
  using assms by (simp add: attemptLoop.simps [of sd mdl ts config attempt st w] Let_def)

lemma attemptLoop_retry:
  assumes "attempt < MAX_ATTEMPTS"
    and "generateText sd (length (generateCalls w)) mdl ts 10 (system_prompt config)
           (messages st) = Inr r"
    and "\<not> hasSubmitDecision (steps r)"
  shows "attemptLoop sd mdl ts config attempt st w =
           attemptLoop sd mdl ts config (Suc attempt)
             (st\<lparr>totalSteps := totalSteps st + length (steps r),
                  totalToolCalls := totalToolCalls st
                    + foldl (\<lambda>n s. n + length (toolCalls s)) 0 (steps r),
                  messages := messages st
                    @ [\<lparr>role = Assistant, content = resultText r\<rparr>, correctiveMessage]\<rparr>)
             (w\<lparr>generateCalls := generateCalls w @ [messages st],
                console := console w @ logSteps (steps r) @ [LogRetrying attempt]\<rparr>)"
  using assms by (simp add: attemptLoop.simps [of sd mdl ts config attempt st w] Let_def)

lemma attemptLoop_last:
  assumes "generateText sd (length (generateCalls w)) mdl ts 10 (system_prompt config)
           (messages st) = Inr r"
    and "\<not> hasSubmitDecision (steps r)"
  shows "attemptLoop sd mdl ts config MAX_ATTEMPTS st w =
           (Inr (st\<lparr>totalSteps := totalSteps st + length (steps r),
                     totalToolCalls := totalToolCalls st
                       + foldl (\<lambda>n s. n + length (toolCalls s)) 0 (steps r)\<rparr>),
            w\<lparr>generateCalls := generateCalls w @ [messages st],
              console := console w @ logSteps (steps r) @ [LogWarnNoSubmit MAX_ATTEMPTS]\<rparr>)"
  using assms
  by (simp add: attemptLoop.simps [of sd mdl ts config MAX_ATTEMPTS st w] Let_def
      attemptLoop_done)

lemma attemptLoop_exhausts:
  assumes never: "\<And>n msgs. \<exists>r. generateText sd n mdl ts 10 (system_prompt config) msgs = Inr r
                    \<and> \<not> hasSubmitDecision (steps r)"
    and "attempt \<le> MAX_ATTEMPTS"
  shows "\<exists>st' w' rs printed.
           attemptLoop sd mdl ts config attempt st w = (Inr st', w')
         \<and> length (generateCalls w') = length (generateCalls w) + (MAX_ATTEMPTS + 1 - attempt)
         \<and> length rs = MAX_ATTEMPTS - attempt
         \<and> messages st' = messages st
             @ concat (map (\<lambda>r. [\<lparr>role = Assistant, content = resultText r\<rparr>,
                                 correctiveMessage]) rs)
         \<and> (\<forall>i<length rs.
               generateText sd (length (generateCalls w) + i) mdl ts 10 (system_prompt config)
                 (messages st
                    @ concat (map (\<lambda>r. [\<lparr>role = Assistant, content = resultText r\<rparr>,
                                        correctiveMessage]) (take i rs)))
               = Inr (rs ! i))
         \<and> console w' = console w @ printed
         \<and> LogWarnNoSubmit MAX_ATTEMPTS \<in> set printed"
  using assms(2)
proof (induction k \<equiv> "MAX_ATTEMPTS - attempt" arbitrary: attempt st w)
  case 0
  then have last: "attempt = MAX_ATTEMPTS" by simp
  obtain r where r: "generateText sd (length (generateCalls w)) mdl ts 10
                       (system_prompt config) (messages st) = Inr r"
    and nosub: "\<not> hasSubmitDecision (steps r)"
    using never by blast
  show ?case
    unfolding last attemptLoop_last [OF r nosub] by simp
next
  case (Suc k)
  then have less: "attempt < MAX_ATTEMPTS" and k: "k = MAX_ATTEMPTS - Suc attempt"
    and le: "Suc attempt \<le> MAX_ATTEMPTS"
    by simp_all
  obtain r where r: "generateText sd (length (generateCalls w)) mdl ts 10
                       (system_prompt config) (messages st) = Inr r"
    and nosub: "\<not> hasSubmitDecision (steps r)"
    using never by blast
  let ?E = "\<lambda>r. [\<lparr>role = Assistant, content = resultText r\<rparr>, correctiveMessage]"
  let ?st = "st\<lparr>totalSteps := totalSteps st + length (steps r),
                  totalToolCalls := totalToolCalls st
                    + foldl (\<lambda>n s. n + length (toolCalls s)) 0 (steps r),
                  messages := messages st
                    @ [\<lparr>role = Assistant, content = resultText r\<rparr>, correctiveMessage]\<rparr>"
  let ?w = "w\<lparr>generateCalls := generateCalls w @ [messages st],
                console := console w @ logSteps (steps r) @ [LogRetrying attempt]\<rparr>"
  obtain st' w' rs printed where
    run: "attemptLoop sd mdl ts config (Suc attempt) ?st ?w = (Inr st', w')"
    and calls: "length (generateCalls w') = length (generateCalls ?w) + (MAX_ATTEMPTS + 1 - Suc attempt)"
    and len: "length rs = MAX_ATTEMPTS - Suc attempt"
    and msgs: "messages st' = messages ?st @ concat (map ?E rs)"
    and answers: "\<forall>i<length rs.
               generateText sd (length (generateCalls ?w) + i) mdl ts 10 (system_prompt config)
                 (messages ?st @ concat (map ?E (take i rs))) = Inr (rs ! i)"
    and cons: "console w' = console ?w @ printed"
    and warn: "LogWarnNoSubmit MAX_ATTEMPTS \<in> set printed"
    using Suc.hyps(1) [OF k le, of ?st ?w] by blast
  have "attemptLoop sd mdl ts config attempt st w = (Inr st', w')"
    unfolding attemptLoop_retry [OF less r nosub] by (rule run)
  moreover have "length (generateCalls w') = length (generateCalls w) + (MAX_ATTEMPTS + 1 - attempt)"
    using calls less by simp
  moreover have "length (r # rs) = MAX_ATTEMPTS - attempt"
    using len less by simp
  moreover have "messages st' = messages st @ concat (map ?E (r # rs))"
    using msgs by simp
  moreover have "\<forall>i<length (r # rs).
               generateText sd (length (generateCalls w) + i) mdl ts 10 (system_prompt config)
                 (messages st @ concat (map ?E (take i (r # rs)))) = Inr ((r # rs) ! i)"
  proof (intro allI impI)
    fix i assume i: "i < length (r # rs)"
    show "generateText sd (length (generateCalls w) + i) mdl ts 10 (system_prompt config)
            (messages st @ concat (map ?E (take i (r # rs)))) = Inr ((r # rs) ! i)"
    proof (cases i)
      case 0
      then show ?thesis using r by simp
    next
      case (Suc j)
      then have "j < length rs" using i by simp
      then show ?thesis
        using answers Suc by simp
    qed
  qed
  moreover have "console w' = console w @ (logSteps (steps r) @ [LogRetrying attempt] @ printed)"
    using cons by simp
  moreover have "LogWarnNoSubmit MAX_ATTEMPTS \<in> set (logSteps (steps r) @ [LogRetrying attempt] @ printed)"
    using warn by simp
  ultimately show ?case by blast
qed

text \<open>
  Claim C3: with a model that never emits a tool call named \<^verbatim>\<open>submit_decision\<close>, the run
  makes exactly \<open>MAX_ATTEMPTS\<close> calls to \<^verbatim>\<open>generateText\<close>, appends exactly
  \<open>2 * (MAX_ATTEMPTS - 1)\<close> messages to the seeded conversation (after every attempt but
  the last, the text that attempt returned as an assistant message, then the corrective
  user message), prints the exhaustion warning, so that the run does not report a
  submission, and returns without an error. \<open>rs\<close> lists what the attempts before the last
  returned, each on the conversation as it stood.
\<close>

theorem loop_exhausts:
  assumes model: "getModel penv config = Inr mdl"
    and never: "\<And>n msgs. \<exists>r. generateText sd n mdl ts 10 (system_prompt config) msgs = Inr r
                    \<and> \<not> hasSubmitDecision (steps r)"
  shows "\<exists>st w' rs.
           runConfigStrategy sd penv ts config w = (Inr st, w')
         \<and> length (generateCalls w') = length (generateCalls w) + MAX_ATTEMPTS
         \<and> length rs = MAX_ATTEMPTS - 1
         \<and> messages st = seedMessage
             # concat (map (\<lambda>r. [\<lparr>role = Assistant, content = resultText r\<rparr>,
                                 \<lparr>role = User, content = ''You did not call submit_decision. You MUST call submit_decision with your trades to complete your turn. Analyze the market and submit now.''\<rparr>]) rs)
         \<and> (\<forall>i<length rs.
               generateText sd (length (generateCalls w) + i) mdl ts 10 (system_prompt config)
                 (seedMessage
                    # concat (map (\<lambda>r. [\<lparr>role = Assistant, content = resultText r\<rparr>,
                                        \<lparr>role = User, content = ''You did not call submit_decision. You MUST call submit_decision with your trades to complete your turn. Analyze the market and submit now.''\<rparr>]) (take i rs)))
               = Inr (rs ! i))
         \<and> length (messages st) = 1 + 2 * (MAX_ATTEMPTS - 1)
         \<and> \<not> reportsSubmitted (drop (length (console w)) (console w'))"
proof -
  let ?st0 = "\<lparr>messages = [seedMessage], totalSteps = 0, totalToolCalls = 0\<rparr>"
  let ?E = "\<lambda>r. [\<lparr>role = Assistant, content = resultText r\<rparr>, correctiveMessage]"
  have one: "1 \<le> MAX_ATTEMPTS" by (simp add: MAX_ATTEMPTS_def)
  obtain st w1 rs printed where
    run: "attemptLoop sd mdl ts config 1 ?st0 w = (Inr st, w1)"
    and calls: "length (generateCalls w1) = length (generateCalls w) + (MAX_ATTEMPTS + 1 - 1)"
    and len: "length rs = MAX_ATTEMPTS - 1"
    and msgs: "messages st = messages ?st0 @ concat (map ?E rs)"
    and answers: "\<forall>i<length rs.
               generateText sd (length (generateCalls w) + i) mdl ts 10 (system_prompt config)
                 (messages ?st0 @ concat (map ?E (take i rs))) = Inr (rs ! i)"
    and cons: "console w1 = console w @ printed"
    and warn: "LogWarnNoSubmit MAX_ATTEMPTS \<in> set printed"
    using attemptLoop_exhausts [OF never one, of ?st0 w] by blast
  let ?w' = "w1\<lparr>console := console w1 @ [LogCompleted (totalSteps st) (totalToolCalls st)]\<rparr>"
  have "runConfigStrategy sd penv ts config w = (Inr st, ?w')"
    using run by (simp add: runConfigStrategy_def model)
  moreover have "length (generateCalls ?w') = length (generateCalls w) + MAX_ATTEMPTS"
    using calls by simp
  moreover have m: "messages st = seedMessage # concat (map ?E rs)"
    using msgs by simp
  moreover have "\<forall>i<length rs.
               generateText sd (length (generateCalls w) + i) mdl ts 10 (system_prompt config)
                 (seedMessage # concat (map ?E (take i rs))) = Inr (rs ! i)"
    using answers by simp
  moreover have "length (messages st) = 1 + 2 * (MAX_ATTEMPTS - 1)"
    unfolding m using len by (simp add: length_concat o_def sum_list_triv)
  moreover have "\<not> reportsSubmitted (drop (length (console w)) (console ?w'))"
    using warn by (simp add: reportsSubmitted_def cons)
  ultimately show ?thesis
    unfolding correctiveMessage_def using len by blast
qed

theorem loop_exhausts_witness:
  "getModel exampleEnv exampleConfig = Inr (XaiModel ''k'' ''grok'')
   \<and> (\<forall>n msgs. \<exists>r.
        generateText
          (exampleSdk\<lparr>generateText := (\<lambda>n mdl ts limit sys msgs.
              Inr \<lparr>resultText = ''thinking'', steps = [idleStep]\<rparr>)\<rparr>)
          n (XaiModel ''k'' ''grok'') [] 10 (system_prompt exampleConfig) msgs = Inr r
        \<and> \<not> hasSubmitDecision (steps r))
   \<and> (\<exists>st w'.
        runConfigStrategy
          (exampleSdk\<lparr>generateText := (\<lambda>n mdl ts limit sys msgs.
              Inr \<lparr>resultText = ''thinking'', steps = [idleStep]\<rparr>)\<rparr>)
          exampleEnv [] exampleConfig freshWorld = (Inr st, w')
      \<and> length (generateCalls w') = 3
      \<and> messages st =
          [seedMessage,
           \<lparr>role = Assistant, content = ''thinking''\<rparr>,
           \<lparr>role = User, content = ''You did not call submit_decision. You MUST call submit_decision with your trades to complete your turn. Analyze the market and submit now.''\<rparr>,
           \<lparr>role = Assistant, content = ''thinking''\<rparr>,
           \<lparr>role = User, content = ''You did not call submit_decision. You MUST call submit_decision with your trades to complete your turn. Analyze the market and submit now.''\<rparr>]
      \<and> \<not> reportsSubmitted (console w'))"
proof -
  let ?sd = "exampleSdk\<lparr>generateText := (\<lambda>n mdl ts limit sys msgs.
              Inr \<lparr>resultText = ''thinking'', steps = [idleStep]\<rparr>)\<rparr>"
  let ?R = "\<lparr>resultText = ''thinking'', steps = [idleStep]\<rparr>"
  have m: "getModel exampleEnv exampleConfig = Inr (XaiModel ''k'' ''grok'')"
    by (simp add: getModel_def exampleEnv_def exampleConfig_def envMissing_def envGet_def
        objectPrototypeNames_def)
  have n: "\<exists>r. generateText ?sd n (XaiModel ''k'' ''grok'') [] 10
                 (system_prompt exampleConfig) msgs = Inr r
              \<and> \<not> hasSubmitDecision (steps r)" for n msgs
    by (simp add: hasSubmitDecision_def idleStep_def SUBMIT_TOOL_def)
  obtain st w' rs where
    run: "runConfigStrategy ?sd exampleEnv [] exampleConfig freshWorld = (Inr st, w')"
    and calls: "length (generateCalls w') = length (generateCalls freshWorld) + MAX_ATTEMPTS"
    and len: "length rs = MAX_ATTEMPTS - 1"
    and msgs: "messages st = seedMessage
             # concat (map (\<lambda>r. [\<lparr>role = Assistant, content = resultText r\<rparr>,
                                 \<lparr>role = User, content = ''You did not call submit_decision. You MUST call submit_decision with your trades to complete your turn. Analyze the market and submit now.''\<rparr>]) rs)"
    and answers: "\<forall>i<length rs.
               generateText ?sd (length (generateCalls freshWorld) + i) (XaiModel ''k'' ''grok'')
                 [] 10 (system_prompt exampleConfig)
                 (seedMessage
                    # concat (map (\<lambda>r. [\<lparr>role = Assistant, content = resultText r\<rparr>,
                                        \<lparr>role = User, content = ''You did not call submit_decision. You MUST call submit_decision with your trades to complete your turn. Analyze the market and submit now.''\<rparr>]) (take i rs)))
               = Inr (rs ! i)"
    and quiet: "\<not> reportsSubmitted (drop (length (console freshWorld)) (console w'))"
    using loop_exhausts [OF m n, of freshWorld] by blast
  obtain a b where rs: "rs = [a, b]"
    using len by (cases rs; cases "tl rs") (auto simp: MAX_ATTEMPTS_def)
  have "a = ?R" "b = ?R"
    using answers [unfolded rs, rule_format, of 0] answers [unfolded rs, rule_format, of 1]
    by simp_all
  then show ?thesis
    using m n run calls msgs quiet unfolding rs
    by (simp add: MAX_ATTEMPTS_def freshWorld_def)
qed

text \<open>
  Claim C4: with a model whose first invocation emits a tool call named
  \<^verbatim>\<open>submit_decision\<close>, the run makes exactly one call to \<^verbatim>\<open>generateText\<close>, the conversation
  after the run is the seeded user message alone, nothing but the tool calls and the
  final counts is printed (no retry notice, no exhaustion warning), so that the run
  reports a submission.
\<close>

theorem loop_submits_first:
  assumes model: "getModel penv config = Inr mdl"
    and first: "generateText sd (length (generateCalls w)) mdl ts 10 (system_prompt config)
                  [seedMessage] = Inr r"
    and submit: "hasSubmitDecision (steps r)"
  shows "\<exists>st w'.
           runConfigStrategy sd penv ts config w = (Inr st, w')
         \<and> generateCalls w' = generateCalls w @ [[seedMessage]]
         \<and> messages st = [seedMessage]
         \<and> console w' = console w @ logSteps (steps r)
              @ [LogCompleted (length (steps r))
                   (foldl (\<lambda>n s. n + length (toolCalls s)) 0 (steps r))]
         \<and> reportsSubmitted (drop (length (console w)) (console w'))"
proof -
  let ?st0 = "\<lparr>messages = [seedMessage], totalSteps = 0, totalToolCalls = 0\<rparr>"
  have one: "1 \<le> MAX_ATTEMPTS" by (simp add: MAX_ATTEMPTS_def)
  have first': "generateText sd (length (generateCalls w)) mdl ts 10 (system_prompt config)
                  (messages ?st0) = Inr r"
    using first by simp
  have quiet: "LogWarnNoSubmit MAX_ATTEMPTS \<notin> set (logSteps (steps r))"
    by (auto simp: logSteps_def)
  show ?thesis
    using quiet attemptLoop_submit [OF one first' submit]
    by (simp add: runConfigStrategy_def model reportsSubmitted_def)
qed

theorem loop_submits_first_witness:
  "getModel exampleEnv exampleConfig = Inr (XaiModel ''k'' ''grok'')
   \<and> generateText exampleSdk (length (generateCalls freshWorld)) (XaiModel ''k'' ''grok'') [] 10
        (system_prompt exampleConfig) [seedMessage]
      = Inr \<lparr>resultText = ''done'',
             steps = [\<lparr>toolCalls = [\<lparr>toolName = ''submit_decision'', input = JNull\<rparr>]\<rparr>]\<rparr>
   \<and> hasSubmitDecision [\<lparr>toolCalls = [\<lparr>toolName = ''submit_decision'', input = JNull\<rparr>]\<rparr>]
   \<and> (\<exists>st w'.
        runConfigStrategy exampleSdk exampleEnv [] exampleConfig freshWorld = (Inr st, w')
      \<and> generateCalls w' = [[seedMessage]]
      \<and> messages st = [seedMessage]
      \<and> console w' = [LogToolCall ''submit_decision'' (Some JNull), LogCompleted 1 1])"
proof -
  let ?r = "\<lparr>resultText = ''done'',
             steps = [\<lparr>toolCalls = [\<lparr>toolName = ''submit_decision'', input = JNull\<rparr>]\<rparr>]\<rparr>"
  have m: "getModel exampleEnv exampleConfig = Inr (XaiModel ''k'' ''grok'')"
    by (simp add: getModel_def exampleEnv_def exampleConfig_def envMissing_def envGet_def
        objectPrototypeNames_def)
  have g: "generateText exampleSdk (length (generateCalls freshWorld)) (XaiModel ''k'' ''grok'')
             [] 10 (system_prompt exampleConfig) [seedMessage] = Inr ?r"
    by (simp add: exampleSdk_def)
  have s: "hasSubmitDecision (steps ?r)"
    by (simp add: hasSubmitDecision_def SUBMIT_TOOL_def)
  obtain st w' where
    run: "runConfigStrategy exampleSdk exampleEnv [] exampleConfig freshWorld = (Inr st, w')"
    and calls: "generateCalls w' = generateCalls freshWorld @ [[seedMessage]]"
    and msgs: "messages st = [seedMessage]"
    and cons: "console w' = console freshWorld @ logSteps (steps ?r)
                 @ [LogCompleted (length (steps ?r))
                      (foldl (\<lambda>n s. n + length (toolCalls s)) 0 (steps ?r))]"
    using loop_submits_first [OF m g s] by blast
  show ?thesis
    using m g s run calls msgs cons
    by (simp add: freshWorld_def logSteps_def SUBMIT_TOOL_def)
qed

section \<open>Properties of the teardown\<close>

lemma attemptLoop_closeCalls:
  "closeCalls (snd (attemptLoop sd mdl ts config attempt st w)) = closeCalls w"
proof (induction k \<equiv> "MAX_ATTEMPTS + 1 - attempt" arbitrary: attempt st w)
  case 0
  then show ?case by (simp add: attemptLoop_done)
next
  case (Suc k)
  then have le: "attempt \<le> MAX_ATTEMPTS" by simp
  show ?case
  proof (cases "generateText sd (length (generateCalls w)) mdl ts 10 (system_prompt config)
                  (messages st)")
    case (Inl e)
    then show ?thesis by (simp add: attemptLoop_throw [OF le])
  next
    case (Inr r)
    show ?thesis
    proof (cases "hasSubmitDecision (steps r)")
      case True
      then show ?thesis by (simp add: attemptLoop_submit [OF le Inr])
    next
      case False
      show ?thesis
      proof (cases "attempt < MAX_ATTEMPTS")
        case True
        have k: "k = MAX_ATTEMPTS + 1 - Suc attempt" using Suc.hyps(2) by simp
        show ?thesis
          unfolding attemptLoop_retry [OF True Inr False] Suc.hyps(1) [OF k] by simp
      next
        case last: False
        with le have "attempt = MAX_ATTEMPTS" by simp
        then show ?thesis
          using attemptLoop_last [OF _ False, of sd w mdl ts config st] Inr by simp
      qed
    qed
  qed
qed

lemma runConfigStrategy_closeCalls:
  "closeCalls (snd (runConfigStrategy sd penv ts config w)) = closeCalls w"
proof (cases "getModel penv config")
  case (Inl e)
  then show ?thesis by (simp add: runConfigStrategy_def)
next
  case (Inr mdl)
  obtain res w1 where run: "attemptLoop sd mdl ts config 1
      \<lparr>messages = [seedMessage], totalSteps = 0, totalToolCalls = 0\<rparr> w = (res, w1)"
    by (cases "attemptLoop sd mdl ts config 1
      \<lparr>messages = [seedMessage], totalSteps = 0, totalToolCalls = 0\<rparr> w") auto
  then have "closeCalls w1 = closeCalls w"
    using attemptLoop_closeCalls [of sd mdl ts config 1
      "\<lparr>messages = [seedMessage], totalSteps = 0, totalToolCalls = 0\<rparr>" w] by simp
  then show ?thesis
    using Inr run by (cases res) (simp_all add: runConfigStrategy_def)
qed

lemma connectLoop_closeCalls:
  "closeCalls (snd (connectLoop sd penv entries connected w)) = closeCalls w"
  by (induction sd penv entries connected w rule: connectLoop.induct)
    (auto simp: Let_def split: sum.splits)

lemma closeLoop_closeCalls:
  "closeCalls (snd (closeLoop sd servers w)) =
     closeCalls w
       @ map client (takeWhile (\<lambda>s. closeClient sd (client s) = None) servers
                     @ take 1 (dropWhile (\<lambda>s. closeClient sd (client s) = None) servers))"
  by (induction sd servers w rule: closeLoop.induct) (auto simp: Let_def split: option.splits)

lemma example_connects:
  "fst (connectMcpServers (exampleSdk\<lparr>closeClient := cl\<rparr>) exampleEnv exampleServers freshWorld)
     = Inr exampleConnected"
  by (simp add: connectMcpServers_def exampleSdk_def exampleEnv_def exampleServers_def
      dataServer_def freshWorld_def exampleConnected_def envMissing_def envGet_def
      objectPrototypeNames_def Let_def expandValues_def buildTransportUrl_def)

lemma closed_prefix_all:
  "\<forall>x \<in> set xs. P x \<Longrightarrow> takeWhile P xs @ take 1 (dropWhile P xs) = xs"
  by (induction xs) auto

lemma runConfigMode_closeCalls:
  assumes "connectMcpServers sd penv
             (case mcp_servers config of None \<Rightarrow> [] | Some servers \<Rightarrow> servers) w
           = (Inr servers, w1)"
  shows "closeCalls (snd (runConfigMode sd penv config w)) =
           closeCalls w
             @ map client (takeWhile (\<lambda>s. closeClient sd (client s) = None) servers
                 @ take 1 (dropWhile (\<lambda>s. closeClient sd (client s) = None) servers))"
proof -
  have w1: "closeCalls w1 = closeCalls w"
    using assms
      connectLoop_closeCalls [of sd penv
        "case mcp_servers config of None \<Rightarrow> [] | Some servers \<Rightarrow> servers" "[]" w]
    by (simp add: connectMcpServers_def)
  let ?ts = "sanitizeTools (asSchema sd) (jsonSchema sd) (mergeTools servers [])"
  let ?w2 = "w1\<lparr>console := console w1
                @ [LogLoaded (length ?ts) (length servers), LogRunningStrategy]\<rparr>"
  obtain res w' where strat: "runConfigStrategy sd penv ?ts config ?w2 = (res, w')"
    by (cases "runConfigStrategy sd penv ?ts config ?w2") auto
  have w': "closeCalls w' = closeCalls w"
    using runConfigStrategy_closeCalls [of sd penv ?ts config ?w2] strat w1 by simp
  obtain outcome w3 where
    guarded: "(case (res, w') of
             (Inl e, w') \<Rightarrow> (Inl e, w')
           | (Inr st, w') \<Rightarrow> (Inr st, w'\<lparr>console := console w' @ [LogStrategyComplete]\<rparr>))
          = (outcome, w3)"
    and w3: "closeCalls w3 = closeCalls w"
    using w' by (cases res) auto
  obtain closeError w4 where fin: "closeLoop sd servers w3 = (closeError, w4)"
    by (cases "closeLoop sd servers w3") auto
  have "snd (runConfigMode sd penv config w) = w4"
    using assms strat guarded fin
    by (cases closeError) (simp_all add: runConfigMode_def Let_def)
  moreover have "closeCalls w4 =
           closeCalls w
             @ map client (takeWhile (\<lambda>s. closeClient sd (client s) = None) servers
                 @ take 1 (dropWhile (\<lambda>s. closeClient sd (client s) = None) servers))"
    using closeLoop_closeCalls [of sd servers w3] fin w3 by simp
  ultimately show ?thesis
    by simp
qed

text \<open>What the \<^verbatim>\<open>finally\<close> block throws depends on the servers alone, not on the world.\<close>

lemma closeLoop_error:
  "fst (closeLoop sd servers w) =
     (case dropWhile (\<lambda>s. closeClient sd (client s) = None) servers of
        [] \<Rightarrow> None
      | s # rest \<Rightarrow> closeClient sd (client s))"
  by (induction sd servers w rule: closeLoop.induct) (auto simp: Let_def split: option.splits)

lemma runConfigMode_outcome:
  assumes "connectMcpServers sd penv
             (case mcp_servers config of None \<Rightarrow> [] | Some servers \<Rightarrow> servers) w
           = (Inr servers, w1)"
  shows "fst (runConfigMode sd penv config w) =
           (case (case dropWhile (\<lambda>s. closeClient sd (client s) = None) servers of
                    [] \<Rightarrow> None
                  | s # rest \<Rightarrow> closeClient sd (client s)) of
              Some e \<Rightarrow> Inl e
            | None \<Rightarrow>
                fst (runConfigStrategy sd penv
                       (sanitizeTools (asSchema sd) (jsonSchema sd) (mergeTools servers []))
                       config
                       (w1\<lparr>console := console w1
                            @ [LogLoaded
                                 (length (sanitizeTools (asSchema sd) (jsonSchema sd)
                                            (mergeTools servers [])))
                                 (length servers),
                               LogRunningStrategy]\<rparr>)))"
proof -
  let ?ts = "sanitizeTools (asSchema sd) (jsonSchema sd) (mergeTools servers [])"
  let ?w2 = "w1\<lparr>console := console w1
                @ [LogLoaded (length ?ts) (length servers), LogRunningStrategy]\<rparr>"
  obtain res w' where strat: "runConfigStrategy sd penv ?ts config ?w2 = (res, w')"
    by (cases "runConfigStrategy sd penv ?ts config ?w2") auto
  obtain w3 where
    guarded: "(case (res, w') of
             (Inl e, w') \<Rightarrow> (Inl e, w')
           | (Inr st, w') \<Rightarrow> (Inr st, w'\<lparr>console := console w' @ [LogStrategyComplete]\<rparr>))
          = (res, w3)"
    by (cases res) auto
  obtain closeError w4 where fin: "closeLoop sd servers w3 = (closeError, w4)"
    by (cases "closeLoop sd servers w3") auto
  have err: "closeError =
     (case dropWhile (\<lambda>s. closeClient sd (client s) = None) servers of
        [] \<Rightarrow> None
      | s # rest \<Rightarrow> closeClient sd (client s))"
    using closeLoop_error [of sd servers w3] fin by simp
  have "fst (runConfigMode sd penv config w) =
          (case closeError of Some e \<Rightarrow> Inl e | None \<Rightarrow> res)"
    using assms strat guarded fin
    by (cases closeError) (simp_all add: runConfigMode_def Let_def)
  moreover have "res = fst (runConfigStrategy sd penv ?ts config ?w2)"
    using strat by simp
  ultimately show ?thesis
    unfolding err by (simp split: option.split)
qed

text \<open>
  Claim C2, as stated: whatever the outcome of the decision loop, every connected
  server is closed exactly once, and a failing close does not keep the remaining servers
  from being closed. It fails on the second part: the \<^verbatim>\<open>finally\<close> block closes the servers
  in a plain loop, and a throwing \<^verbatim>\<open>close\<close> leaves it. With two connected servers of which
  the first fails to close, the second is never closed.
\<close>

theorem failing_close_skips_remaining:
  "fst (connectMcpServers
          (exampleSdk\<lparr>closeClient := (\<lambda>c. if c = 0 then Some (Error ''close failed'') else None)\<rparr>)
          exampleEnv exampleServers freshWorld) = Inr exampleConnected
   \<and> map client exampleConnected = [0, 1]
   \<and> closeCalls (snd (runConfigMode
          (exampleSdk\<lparr>closeClient := (\<lambda>c. if c = 0 then Some (Error ''close failed'') else None)\<rparr>)
          exampleEnv exampleConfig freshWorld)) = [0]"
proof -
  let ?sd = "exampleSdk\<lparr>closeClient :=
               (\<lambda>c. if c = 0 then Some (Error ''close failed'') else None)\<rparr>"
  have conn: "fst (connectMcpServers ?sd exampleEnv exampleServers freshWorld)
                = Inr exampleConnected"
    by (rule example_connects)
  then have conn': "connectMcpServers ?sd exampleEnv
                      (case mcp_servers exampleConfig of None \<Rightarrow> [] | Some servers \<Rightarrow> servers)
                      freshWorld
                    = (Inr exampleConnected,
                       snd (connectMcpServers ?sd exampleEnv exampleServers freshWorld))"
    by (simp add: exampleConfig_def prod_eq_iff)
  have "closeCalls (snd (runConfigMode ?sd exampleEnv exampleConfig freshWorld)) = [0]"
    unfolding runConfigMode_closeCalls [OF conn']
    by (simp add: exampleConnected_def exampleSdk_def freshWorld_def)
  then show ?thesis
    using conn by (simp add: exampleConnected_def)
qed

text \<open>
  Claim C2, amended: whatever the outcome of the decision loop (submission, exhaustion
  or a thrown invocation error), the teardown invokes the close operations of the
  connected servers in connection order, each once, up to and including the first one
  that fails; the servers after a failing close are not closed, and the run ends with the
  error of that close. When no close fails, every connected server's close operation is
  invoked exactly once and the run ends with the outcome of the decision loop.
\<close>

theorem teardown_closes_in_order:
  assumes "connectMcpServers sd penv
             (case mcp_servers config of None \<Rightarrow> [] | Some servers \<Rightarrow> servers) w
           = (Inr servers, w1)"
  shows "closeCalls (snd (runConfigMode sd penv config w)) =
           closeCalls w
             @ map client (takeWhile (\<lambda>s. closeClient sd (client s) = None) servers
                 @ take 1 (dropWhile (\<lambda>s. closeClient sd (client s) = None) servers))
       \<and> (\<forall>s rest e.
             dropWhile (\<lambda>s. closeClient sd (client s) = None) servers = s # rest
             \<longrightarrow> closeClient sd (client s) = Some e
             \<longrightarrow> fst (runConfigMode sd penv config w) = Inl e)
       \<and> ((\<forall>s \<in> set servers. closeClient sd (client s) = None) \<longrightarrow>
            closeCalls (snd (runConfigMode sd penv config w)) = closeCalls w @ map client servers
          \<and> fst (runConfigMode sd penv config w) =
              fst (runConfigStrategy sd penv
                     (sanitizeTools (asSchema sd) (jsonSchema sd) (mergeTools servers []))
                     config
                     (w1\<lparr>console := console w1
                          @ [LogLoaded
                               (length (sanitizeTools (asSchema sd) (jsonSchema sd)
                                          (mergeTools servers [])))
                               (length servers),
                             LogRunningStrategy]\<rparr>)))"
proof -
  let ?ok = "\<lambda>s. closeClient sd (client s) = None"
  have all: "takeWhile ?ok servers @ take 1 (dropWhile ?ok servers) = servers"
    if "\<forall>s \<in> set servers. closeClient sd (client s) = None"
    using that by (rule closed_prefix_all)
  have none: "dropWhile ?ok servers = []"
    if "\<forall>s \<in> set servers. closeClient sd (client s) = None"
    using that by (simp add: dropWhile_eq_Nil_conv)
  have failing: "fst (runConfigMode sd penv config w) = Inl e"
    if "dropWhile ?ok servers = s # rest" and "closeClient sd (client s) = Some e"
    for s rest e
    using that runConfigMode_outcome [OF assms] by simp
  have calls: "closeCalls (snd (runConfigMode sd penv config w)) =
           closeCalls w @ map client (takeWhile ?ok servers @ take 1 (dropWhile ?ok servers))"
    by (rule runConfigMode_closeCalls [OF assms])
  show ?thesis
  proof (intro conjI allI impI)
    show "closeCalls (snd (runConfigMode sd penv config w)) =
           closeCalls w @ map client (takeWhile ?ok servers @ take 1 (dropWhile ?ok servers))"
      by (rule calls)
  next
    fix s rest e
    assume "dropWhile ?ok servers = s # rest" and "closeClient sd (client s) = Some e"
    then show "fst (runConfigMode sd penv config w) = Inl e"
      by (rule failing)
  next
    assume ok: "\<forall>s \<in> set servers. closeClient sd (client s) = None"
    show "closeCalls (snd (runConfigMode sd penv config w)) = closeCalls w @ map client servers"
      by (rule calls [unfolded all [OF ok]])
  next
    assume ok: "\<forall>s \<in> set servers. closeClient sd (client s) = None"
    show "fst (runConfigMode sd penv config w) =
              fst (runConfigStrategy sd penv
                     (sanitizeTools (asSchema sd) (jsonSchema sd) (mergeTools servers []))
                     config
                     (w1\<lparr>console := console w1
                          @ [LogLoaded
                               (length (sanitizeTools (asSchema sd) (jsonSchema sd)
                                          (mergeTools servers [])))
                               (length servers),
                             LogRunningStrategy]\<rparr>))"
      using runConfigMode_outcome [OF assms] none [OF ok] by simp
  qed
qed

theorem teardown_closes_in_order_witness:
  "connectMcpServers exampleSdk exampleEnv
     (case mcp_servers exampleConfig of None \<Rightarrow> [] | Some servers \<Rightarrow> servers) freshWorld
     = (Inr exampleConnected,
        snd (connectMcpServers exampleSdk exampleEnv exampleServers freshWorld))
   \<and> map client exampleConnected = [0, 1]
   \<and> closeClient exampleSdk 0 = None
   \<and> closeClient exampleSdk 1 = None
   \<and> closeCalls (snd (runConfigMode exampleSdk exampleEnv exampleConfig freshWorld)) = [0, 1]"
proof -
  have conn: "connectMcpServers exampleSdk exampleEnv
     (case mcp_servers exampleConfig of None \<Rightarrow> [] | Some servers \<Rightarrow> servers) freshWorld
     = (Inr exampleConnected,
        snd (connectMcpServers exampleSdk exampleEnv exampleServers freshWorld))"
    using example_connects [of "closeClient exampleSdk"]
    by (simp add: exampleConfig_def prod_eq_iff)
  have ok: "\<forall>s \<in> set exampleConnected. closeClient exampleSdk (client s) = None"
    by (simp add: exampleSdk_def exampleConnected_def)
  show ?thesis
    using teardown_closes_in_order [OF conn] ok conn
    by (simp add: exampleConnected_def freshWorld_def exampleSdk_def)
qed

end
